theory Spec2Isabelle
  imports Main "HOL-Library.Word"
begin

section \<open>Values shared by both packages\<close>

text \<open>
  Go's \<open>uint64\<close> is a 64-bit word whose \<open>+\<close> wraps around. Go's \<open>int\<close> is the
  signed reading of a 64-bit word (the size \<open>int\<close> has on the 64-bit targets the
  node is built for): \<open>+\<close> and \<open>-\<close> wrap, and \<open>\<le>\<close> is the signed comparison.
\<close>

type_synonym uint64 = "64 word"
type_synonym int64 = "64 word"
type_synonym byte = "8 word"

text \<open>
  The \<open>error\<close> values the two files build, one constructor for every place that
  builds one. \<open>External\<close> stands for an error that comes out of a collaborator
  (the executor, the store, the inclusion caches, the block manager's store).
\<close>

datatype error =
    InvalidSource                        \<comment> \<open>\<open>errors.New("invalid source")\<close>\<close>
  | NotFullOrLightNode                   \<comment> \<open>\<open>errors.New("not a full or light node")\<close>\<close>
  | NotFullNode                          \<comment> \<open>\<open>errors.New("not a full node")\<close>\<close>
  | WaitingForDAInclusion                \<comment> \<open>\<open>fmt.Errorf("waiting for DA inclusion")\<close>\<close>
  | ExpectedHeight uint64 uint64         \<comment> \<open>\<open>fmt.Errorf("expected height > %v, got %v", n, nHeight)\<close>\<close>
  | FailedToSetDAIncludedHeight uint64   \<comment> \<open>\<open>fmt.Errorf("failed to set DA included height: %d", newHeight)\<close>\<close>
  | ErrorWhileIncrementing error         \<comment> \<open>\<open>fmt.Errorf("error while incrementing DA included height: %w", err)\<close>\<close>
  | TypeAssertionFailed                  \<comment> \<open>the runtime error of an unchecked \<open>node.(*FullNode)\<close>\<close>
  | External string

text \<open>A call either returns its value or panics with a value.\<close>

datatype 'a outcome = Return 'a | Panic error

section \<open>Package node: \<open>Retry\<close>\<close>

text \<open>
  \<open>fn\<close> is a closure with side effects: two invocations need not agree. It is given
  as the sequence of its outcomes, \<open>fn k\<close> being what invocation number \<open>k\<close> (counted
  from 0 over the whole run) does: return \<open>nil\<close> (\<open>Return None\<close>), return an error
  or panic. The state that \<open>Retry\<close> threads holds the number of invocations made
  so far and the durations it has slept, in order.
\<close>

record retry_state =
  calls :: nat
  slept :: "int list"

definition call_fn :: "(nat \<Rightarrow> error option outcome) \<Rightarrow> retry_state \<Rightarrow> error option outcome \<times> retry_state" where
  "call_fn fn s = (fn (calls s), s\<lparr>calls := Suc (calls s)\<rparr>)"

definition time_Sleep :: "int \<Rightarrow> retry_state \<Rightarrow> retry_state" where
  "time_Sleep d s = s\<lparr>slept := slept s @ [d]\<rparr>"

text \<open>
  The loop \<open>for i := 1; i <= tries-1; i++\<close> with the trailing \<open>return fn()\<close>.
  \<open>tries - 1\<close> and \<open>i + 1\<close> are machine arithmetic. The loop need not end, so
  the result is an option: \<open>None\<close> is a run that never returns.
\<close>

partial_function (option) Retry_loop ::
  "int64 \<Rightarrow> int64 \<Rightarrow> int \<Rightarrow> (nat \<Rightarrow> error option outcome) \<Rightarrow> retry_state
     \<Rightarrow> (error option outcome \<times> retry_state) option" where
  "Retry_loop i tries durationBetweenAttempts fn s =
     (if i \<le>s tries - 1 then
        (case call_fn fn s of
           (Panic p, s') \<Rightarrow> Some (Panic p, s')
         | (Return None, s') \<Rightarrow> Some (Return None, s')
         | (Return (Some err), s') \<Rightarrow>
             Retry_loop (i + 1) tries durationBetweenAttempts fn
               (time_Sleep durationBetweenAttempts s'))
      else Some (call_fn fn s))"

declare Retry_loop.simps [code]

definition Retry ::
  "int64 \<Rightarrow> int \<Rightarrow> (nat \<Rightarrow> error option outcome) \<Rightarrow> retry_state
     \<Rightarrow> (error option outcome \<times> retry_state) option" where
  "Retry tries durationBetweenAttempts fn s = Retry_loop 1 tries durationBetweenAttempts fn s"

text \<open>
  The same loop by the number of rounds \<open>k\<close> the \<open>for\<close> still has to make, for
  the proofs: \<open>k\<close> rounds that stop at the first outcome that is not an error, then
  the trailing call.
\<close>

fun attempts :: "nat \<Rightarrow> int \<Rightarrow> (nat \<Rightarrow> error option outcome) \<Rightarrow> retry_state
    \<Rightarrow> error option outcome \<times> retry_state" where
  "attempts 0 d fn s = call_fn fn s"
| "attempts (Suc k) d fn s =
     (case call_fn fn s of
        (Return (Some err), s') \<Rightarrow> attempts k d fn (time_Sleep d s')
      | r \<Rightarrow> r)"

fun failed :: "error option outcome \<Rightarrow> bool" where
  "failed (Return (Some err)) = True"
| "failed (Return None) = False"
| "failed (Panic p) = False"

definition fresh :: retry_state where
  "fresh = \<lparr>calls = 0, slept = []\<rparr>"

section \<open>Package node: the height helpers\<close>

text \<open>
  \<open>type Source int\<close> with the constants \<open>Header\<close>, \<open>Block\<close>, \<open>Store\<close> numbered by
  \<open>iota\<close>; every other integer is a \<open>Source\<close> too.
\<close>

type_synonym Source = int64

definition Header :: Source where "Header = 0"
definition Block :: Source where "Block = 1"
definition Store :: Source where "Store = 2"

text \<open>
  A \<open>Node\<close> is an interface value: a \<open>*FullNode\<close>, a \<open>*LightNode\<close>, or anything
  else. The full and light nodes are constructed ones (the pointer and the services
  behind it are not nil). The services and the block manager of a node are not in
  these files, and what they report changes while the node runs: each reading is given
  as a function of the moment \<open>t\<close> at which it is taken.
\<close>

record FullNode =
  fn_hSyncHeight :: "nat \<Rightarrow> uint64"                \<comment> \<open>\<open>fn.hSyncService.Store().Height()\<close>\<close>
  fn_dSyncHeight :: "nat \<Rightarrow> uint64"                \<comment> \<open>\<open>fn.dSyncService.Store().Height()\<close>\<close>
  fn_GetStoreHeight :: "nat \<Rightarrow> uint64 \<times> error option" \<comment> \<open>\<open>fn.blockManager.GetStoreHeight(ctx)\<close>\<close>
  fn_GetDAIncludedHeight :: "nat \<Rightarrow> uint64"        \<comment> \<open>\<open>fn.blockManager.GetDAIncludedHeight()\<close>\<close>

record LightNode =
  ln_hSyncHeight :: "nat \<Rightarrow> uint64"                \<comment> \<open>\<open>ln.hSyncService.Store().Height()\<close>\<close>

datatype Node = FullNodePtr FullNode | LightNodePtr LightNode | OtherNode

fun getNodeHeightFromHeader :: "Node \<Rightarrow> nat \<Rightarrow> uint64 \<times> error option" where
  "getNodeHeightFromHeader (FullNodePtr fn) t = (fn_hSyncHeight fn t, None)"
| "getNodeHeightFromHeader (LightNodePtr ln) t = (ln_hSyncHeight ln t, None)"
| "getNodeHeightFromHeader OtherNode t = (0, Some NotFullOrLightNode)"

fun getNodeHeightFromBlock :: "Node \<Rightarrow> nat \<Rightarrow> uint64 \<times> error option" where
  "getNodeHeightFromBlock (FullNodePtr fn) t = (fn_dSyncHeight fn t, None)"
| "getNodeHeightFromBlock node t = (0, Some NotFullNode)"

fun getNodeHeightFromStore :: "Node \<Rightarrow> nat \<Rightarrow> uint64 \<times> error option" where
  "getNodeHeightFromStore (FullNodePtr fn) t = fn_GetStoreHeight fn t"
| "getNodeHeightFromStore node t = (0, Some NotFullNode)"

definition getNodeHeight :: "Node \<Rightarrow> Source \<Rightarrow> nat \<Rightarrow> uint64 \<times> error option" where
  "getNodeHeight node source t =
     (if source = Header then getNodeHeightFromHeader node t
      else if source = Block then getNodeHeightFromBlock node t
      else if source = Store then getNodeHeightFromStore node t
      else (0, Some InvalidSource))"

text \<open>
  The views a node variant has (section 4.2 of the specification): a full node runs the
  header sync, the data sync and the block manager; a light node only the header sync.
\<close>

fun supports :: "Node \<Rightarrow> Source \<Rightarrow> bool" where
  "supports (FullNodePtr fn) source = (source = Header \<or> source = Block \<or> source = Store)"
| "supports (LightNodePtr ln) source = (source = Header)"
| "supports OtherNode source = False"

text \<open>The closure of \<open>waitForAtLeastNBlocks\<close>; its invocation \<open>k\<close> reads the node at moment \<open>k\<close>.\<close>

definition waitForAtLeastNBlocks_fn :: "Node \<Rightarrow> uint64 \<Rightarrow> Source \<Rightarrow> nat \<Rightarrow> error option outcome" where
  "waitForAtLeastNBlocks_fn node n source k =
     (case getNodeHeight node source k of
        (nHeight, Some err) \<Rightarrow> Return (Some err)
      | (nHeight, None) \<Rightarrow>
          if nHeight \<ge> n then Return None
          else Return (Some (ExpectedHeight n nHeight)))"

text \<open>\<open>100*time.Millisecond\<close>, a \<open>Duration\<close> in nanoseconds.\<close>

definition hundred_ms :: int where
  "hundred_ms = 100 * 1000000"

definition waitForAtLeastNBlocks ::
  "Node \<Rightarrow> uint64 \<Rightarrow> Source \<Rightarrow> retry_state \<Rightarrow> (error option outcome \<times> retry_state) option" where
  "waitForAtLeastNBlocks node n source s =
     Retry 300 hundred_ms (waitForAtLeastNBlocks_fn node n source) s"

text \<open>
  The closure of \<open>waitForAtLeastNDAIncludedHeight\<close>. The type assertion
  \<open>node.(*FullNode)\<close> is unchecked: on any other node it panics.
\<close>

definition waitForAtLeastNDAIncludedHeight_fn :: "Node \<Rightarrow> uint64 \<Rightarrow> nat \<Rightarrow> error option outcome" where
  "waitForAtLeastNDAIncludedHeight_fn node n k =
     (case node of
        FullNodePtr fn \<Rightarrow>
          (let nHeight = fn_GetDAIncludedHeight fn k in
           if nHeight = 0 then Return (Some WaitingForDAInclusion)
           else if nHeight \<ge> n then Return None
           else Return (Some (ExpectedHeight n nHeight)))
      | _ \<Rightarrow> Panic TypeAssertionFailed)"

definition waitForAtLeastNDAIncludedHeight ::
  "Node \<Rightarrow> uint64 \<Rightarrow> retry_state \<Rightarrow> (error option outcome \<times> retry_state) option" where
  "waitForAtLeastNDAIncludedHeight node n s =
     Retry 300 hundred_ms (waitForAtLeastNDAIncludedHeight_fn node n) s"

definition waitForFirstBlock :: "Node \<Rightarrow> Source \<Rightarrow> retry_state \<Rightarrow> (error option outcome \<times> retry_state) option" where
  "waitForFirstBlock node source s = waitForAtLeastNBlocks node 1 source s"

definition waitForFirstBlockToBeDAIncludedHeight :: "Node \<Rightarrow> retry_state \<Rightarrow> (error option outcome \<times> retry_state) option" where
  "waitForFirstBlockToBeDAIncludedHeight node s = waitForAtLeastNDAIncludedHeight node 1 s"

section \<open>Package block: the DA includer\<close>

text \<open>
  What the loop does that can be seen from outside, in the order it does it: the lines
  it logs, the calls it makes to its collaborators, the compare-and-swap on the height
  cell and the wake-ups of its \<open>select\<close>.
\<close>

datatype level = LevelDebug | LevelError

datatype signal = Done | Trigger   \<comment> \<open>\<open>ctx.Done()\<close> and \<open>m.daIncluderCh\<close>\<close>

datatype event =
    Logged level string uint64 "error option"
  | Selected signal
  | IsDAIncludedCalled uint64
  | SetFinalCalled uint64
  | SetMetadataCalled string "byte list"
  | CompareAndSwapCalled uint64 uint64

text \<open>
  The collaborators are not in this file: the inclusion check \<open>m.IsDAIncluded\<close>, the
  executor's \<open>SetFinal\<close>, the store's \<open>SetMetadata\<close> and the constant
  \<open>DAIncludedHeightKey\<close> are parameters. Their answers may change over time, so each
  takes the moment \<open>t\<close> of the call. \<open>m.daIncludedHeight\<close> is an atomic cell that
  other goroutines can reach: \<open>otherWriters t c\<close> is what they leave in the cell,
  holding \<open>c\<close>, while the loop is away at moment \<open>t\<close>. With the loop as the only
  writer it leaves \<open>c\<close>.
\<close>

record env =
  IsDAIncluded :: "nat \<Rightarrow> uint64 \<Rightarrow> bool \<times> error option"
  SetFinal :: "nat \<Rightarrow> uint64 \<Rightarrow> error option"
  SetMetadata :: "nat \<Rightarrow> string \<Rightarrow> byte list \<Rightarrow> error option"
  DAIncludedHeightKey :: string
  otherWriters :: "nat \<Rightarrow> uint64 \<Rightarrow> uint64"

definition single_writer :: "env \<Rightarrow> bool" where
  "single_writer env = (\<forall>t c. otherWriters env t c = c)"

record manager =
  daIncludedHeight :: uint64   \<comment> \<open>the atomic cell \<open>m.daIncludedHeight\<close>\<close>
  now :: nat                   \<comment> \<open>the number of times the loop has been away\<close>
  trace :: "event list"

text \<open>
  The loop is away (in a collaborator, or blocked in \<open>select\<close>): the event is
  recorded, the other goroutines run, the moment advances.
\<close>

definition away :: "env \<Rightarrow> event \<Rightarrow> manager \<Rightarrow> manager" where
  "away env ev m =
     m\<lparr>daIncludedHeight := otherWriters env (now m) (daIncludedHeight m),
       now := Suc (now m),
       trace := trace m @ [ev]\<rparr>"

definition logger :: "level \<Rightarrow> string \<Rightarrow> uint64 \<Rightarrow> error option \<Rightarrow> manager \<Rightarrow> manager" where
  "logger lvl msg height err m = m\<lparr>trace := trace m @ [Logged lvl msg height err]\<rparr>"

definition m_IsDAIncluded :: "env \<Rightarrow> uint64 \<Rightarrow> manager \<Rightarrow> (bool \<times> error option) \<times> manager" where
  "m_IsDAIncluded env height m =
     (IsDAIncluded env (now m) height, away env (IsDAIncludedCalled height) m)"

definition exec_SetFinal :: "env \<Rightarrow> uint64 \<Rightarrow> manager \<Rightarrow> error option \<times> manager" where
  "exec_SetFinal env height m =
     (SetFinal env (now m) height, away env (SetFinalCalled height) m)"

definition store_SetMetadata :: "env \<Rightarrow> string \<Rightarrow> byte list \<Rightarrow> manager \<Rightarrow> error option \<times> manager" where
  "store_SetMetadata env key val m =
     (SetMetadata env (now m) key val, away env (SetMetadataCalled key val) m)"

text \<open>
  Modelled from the spec: \<open>GetDAIncludedHeight\<close> is not in the file; the specification
  has the current confirmed height read from the volatile cell.
\<close>

definition GetDAIncludedHeight :: "manager \<Rightarrow> uint64" where
  "GetDAIncludedHeight m = daIncludedHeight m"

text \<open>\<open>atomic.Uint64.CompareAndSwap(old, new)\<close>.\<close>

definition CompareAndSwap :: "uint64 \<Rightarrow> uint64 \<Rightarrow> manager \<Rightarrow> bool \<times> manager" where
  "CompareAndSwap old new m =
     (let m' = m\<lparr>trace := trace m @ [CompareAndSwapCalled old new]\<rparr> in
      if daIncludedHeight m = old then (True, m'\<lparr>daIncludedHeight := new\<rparr>)
      else (False, m'))"

text \<open>
  \<open>make([]byte, 8)\<close> and \<open>binary.LittleEndian.PutUint64\<close>, which stores byte \<open>i\<close> of
  the value at index \<open>i\<close> of the buffer (the buffer here always has its 8 bytes).
\<close>

definition make_bytes :: "nat \<Rightarrow> byte list" where
  "make_bytes n = replicate n 0"

definition PutUint64 :: "byte list \<Rightarrow> uint64 \<Rightarrow> byte list" where
  "PutUint64 b v =
     b[0 := ucast v,
       1 := ucast (drop_bit 8 v),
       2 := ucast (drop_bit 16 v),
       3 := ucast (drop_bit 24 v),
       4 := ucast (drop_bit 32 v),
       5 := ucast (drop_bit 40 v),
       6 := ucast (drop_bit 48 v),
       7 := ucast (drop_bit 56 v)]"

definition incrementDAIncludedHeight :: "env \<Rightarrow> manager \<Rightarrow> error option \<times> manager" where
  "incrementDAIncludedHeight env m =
     (let currentHeight = GetDAIncludedHeight m;
          newHeight = currentHeight + 1;
          m1 = logger LevelDebug ''setting final'' newHeight None m
      in case exec_SetFinal env newHeight m1 of
           (Some err, m2) \<Rightarrow>
             (Some err, logger LevelError ''failed to set final'' newHeight (Some err) m2)
         | (None, m2) \<Rightarrow>
             (let heightBytes = PutUint64 (make_bytes 8) newHeight;
                  m3 = logger LevelDebug ''setting DA included height'' newHeight None m2
              in case store_SetMetadata env (DAIncludedHeightKey env) heightBytes m3 of
                   (Some err, m4) \<Rightarrow>
                     (Some err,
                      logger LevelError ''failed to set DA included height'' newHeight (Some err) m4)
                 | (None, m4) \<Rightarrow>
                     (case CompareAndSwap currentHeight newHeight m4 of
                        (False, m5) \<Rightarrow> (Some (FailedToSetDAIncludedHeight newHeight), m5)
                      | (True, m5) \<Rightarrow> (None, m5))))"

text \<open>
  The inner \<open>for\<close> of \<open>DAIncluderLoop\<close>, from the local \<open>currentDAIncluded\<close>. It
  returns \<open>Some p\<close> when it panics with \<open>p\<close> and \<open>None\<close> when it breaks out. It
  need not end.
\<close>

partial_function (option) drain :: "env \<Rightarrow> uint64 \<Rightarrow> manager \<Rightarrow> (error option \<times> manager) option" where
  "drain env currentDAIncluded m =
     (let nextHeight = currentDAIncluded + 1 in
      case m_IsDAIncluded env nextHeight m of
        ((daIncluded, Some err), m1) \<Rightarrow>
          Some (None,
            logger LevelDebug ''no more blocks to check at this time'' nextHeight (Some err) m1)
      | ((daIncluded, None), m1) \<Rightarrow>
          if daIncluded then
            (case incrementDAIncludedHeight env m1 of
               (Some err, m2) \<Rightarrow> Some (Some (ErrorWhileIncrementing err), m2)
             | (None, m2) \<Rightarrow> drain env nextHeight m2)
          else Some (None, m1))"

declare drain.simps [code]

text \<open>
  The outer \<open>for\<close> with its \<open>select\<close>, over the signals the \<open>select\<close> receives
  in turn. With no signal left the loop stays blocked in the \<open>select\<close>.
\<close>

datatype exit = Returned | Panicked error | Waiting

fun DAIncluderLoop :: "env \<Rightarrow> signal list \<Rightarrow> manager \<Rightarrow> (exit \<times> manager) option" where
  "DAIncluderLoop env [] m = Some (Waiting, m)"
| "DAIncluderLoop env (Done # sigs) m = Some (Returned, away env (Selected Done) m)"
| "DAIncluderLoop env (Trigger # sigs) m =
     (let m0 = away env (Selected Trigger) m;
          currentDAIncluded = GetDAIncludedHeight m0
      in case drain env currentDAIncluded m0 of
           None \<Rightarrow> None
         | Some (Some p, m') \<Rightarrow> Some (Panicked p, m')
         | Some (None, m') \<Rightarrow> DAIncluderLoop env sigs m')"

text \<open>
  The same loop one step at a time, to speak of where a run has got to. The loop is
  either \<open>Idle\<close>, in its \<open>select\<close> with the signals still to come, or
  \<open>Draining\<close>, at the top of the inner \<open>for\<close> with its local
  \<open>currentDAIncluded\<close>, or it has exited. A step is one wake-up of the \<open>select\<close>
  or one round of the inner \<open>for\<close>. With no signal left the loop stays idle.
\<close>

datatype position =
    Idle manager "signal list"
  | Draining uint64 manager "signal list"
  | Exited exit manager

fun loop_step :: "env \<Rightarrow> position \<Rightarrow> position" where
  "loop_step env (Idle m []) = Idle m []"
| "loop_step env (Idle m (Done # sigs)) = Exited Returned (away env (Selected Done) m)"
| "loop_step env (Idle m (Trigger # sigs)) =
     (let m0 = away env (Selected Trigger) m in
      Draining (GetDAIncludedHeight m0) m0 sigs)"
| "loop_step env (Draining currentDAIncluded m sigs) =
     (let nextHeight = currentDAIncluded + 1 in
      case m_IsDAIncluded env nextHeight m of
        ((daIncluded, Some err), m1) \<Rightarrow>
          Idle (logger LevelDebug ''no more blocks to check at this time'' nextHeight (Some err) m1)
            sigs
      | ((daIncluded, None), m1) \<Rightarrow>
          if daIncluded then
            (case incrementDAIncludedHeight env m1 of
               (Some err, m2) \<Rightarrow> Exited (Panicked (ErrorWhileIncrementing err)) m2
             | (None, m2) \<Rightarrow> Draining nextHeight m2 sigs)
          else Idle m1 sigs)"
| "loop_step env (Exited r m) = Exited r m"

section \<open>Reading a trace\<close>

text \<open>The compare-and-swaps a trace records, in order, each as the pair (old, new).\<close>

fun swaps :: "event list \<Rightarrow> (uint64 \<times> uint64) list" where
  "swaps [] = []"
| "swaps (CompareAndSwapCalled old new # evs) = (old, new) # swaps evs"
| "swaps (ev # evs) = swaps evs"


text \<open>What the loop still does from a position.\<close>

fun run_from :: "env \<Rightarrow> position \<Rightarrow> (exit \<times> manager) option" where
  "run_from env (Idle m sigs) = DAIncluderLoop env sigs m"
| "run_from env (Draining cur m sigs) =
     (case drain env cur m of
        None \<Rightarrow> None
      | Some (Some p, m') \<Rightarrow> Some (Panicked p, m')
      | Some (None, m') \<Rightarrow> DAIncluderLoop env sigs m')"
| "run_from env (Exited r m) = Some (r, m)"

section \<open>Concrete inputs\<close>

text \<open>Closures and nodes on which the theorems below are run.\<close>

definition fails_twice :: "nat \<Rightarrow> error option outcome" where
  "fails_twice k = (if k < 2 then Return (Some (External ''not yet'')) else Return None)"

definition always_fails :: "nat \<Rightarrow> error option outcome" where
  "always_fails k = Return (Some (ExpectedHeight 5 (of_nat k)))"

definition fails_once :: "nat \<Rightarrow> error option outcome" where
  "fails_once k = (if k = 0 then Return (Some (External ''not yet'')) else Return None)"

definition stuck_full_node :: FullNode where
  "stuck_full_node = \<lparr>fn_hSyncHeight = (\<lambda>t. 7), fn_dSyncHeight = (\<lambda>t. 7),
     fn_GetStoreHeight = (\<lambda>t. (7, None)), fn_GetDAIncludedHeight = (\<lambda>t. 0)\<rparr>"

definition a_light_node :: LightNode where
  "a_light_node = \<lparr>ln_hSyncHeight = (\<lambda>t. 7)\<rparr>"

text \<open>
  Collaborators: an inclusion check that confirms heights 11 and 12 only, with an
  executor and a store that accept everything and no other writer; the same with the
  executor down, with the store down, with a second writer that stores 99 at moment 3;
  and one whose inclusion check confirms height 0 only.
\<close>

definition env_ok :: env where
  "env_ok = \<lparr>IsDAIncluded = (\<lambda>t h. (h = 11 \<or> h = 12, None)),
     SetFinal = (\<lambda>t h. None),
     SetMetadata = (\<lambda>t key val. None),
     DAIncludedHeightKey = ''d'',
     otherWriters = (\<lambda>t c. c)\<rparr>"

definition env_final_down :: env where
  "env_final_down = env_ok\<lparr>SetFinal := (\<lambda>t h. Some (External ''executor down''))\<rparr>"

definition env_store_down :: env where
  "env_store_down = env_ok\<lparr>SetMetadata := (\<lambda>t key val. Some (External ''store down''))\<rparr>"

definition env_second_writer :: env where
  "env_second_writer = env_ok\<lparr>otherWriters := (\<lambda>t c. if t = 3 then 99 else c)\<rparr>"

definition env_wrap :: env where
  "env_wrap = env_ok\<lparr>IsDAIncluded := (\<lambda>t h. (h = 0, None))\<rparr>"

text \<open>
  The accepting collaborators again, with the store down at moment 6 only, and with a
  second writer that stores 99 at moment 6: in a pass from height 10 that is during
  \<open>SetMetadata\<close> for height 12.
\<close>

definition env_store_down_late :: env where
  "env_store_down_late =
     env_ok\<lparr>SetMetadata := (\<lambda>t key val. if t = 6 then Some (External ''store down'') else None)\<rparr>"

definition env_late_writer :: env where
  "env_late_writer = env_ok\<lparr>otherWriters := (\<lambda>t c. if t = 6 then 99 else c)\<rparr>"

text \<open>
  Managers: at height 10; at height 10 after the wake-up and the inclusion check of
  height 11; and at the greatest \<open>uint64\<close>.
\<close>

definition m10 :: manager where
  "m10 = \<lparr>daIncludedHeight = 10, now = 0, trace = []\<rparr>"

definition m10_asked :: manager where
  "m10_asked = \<lparr>daIncludedHeight = 10, now = 2, trace = [Selected Trigger, IsDAIncludedCalled 11]\<rparr>"

definition m_top :: manager where
  "m_top = \<lparr>daIncludedHeight = 18446744073709551615, now = 0, trace = []\<rparr>"

text \<open>
  The manager at height 10 after the wake-up; after the commit of height 11 in that
  pass; and after the inclusion check of height 12.
\<close>

definition m10_woken :: manager where
  "m10_woken = \<lparr>daIncludedHeight = 10, now = 1, trace = [Selected Trigger]\<rparr>"

definition m11 :: manager where
  "m11 = \<lparr>daIncludedHeight = 11, now = 4,
     trace = [Selected Trigger, IsDAIncludedCalled 11,
              Logged LevelDebug ''setting final'' 11 None, SetFinalCalled 11,
              Logged LevelDebug ''setting DA included height'' 11 None,
              SetMetadataCalled ''d'' [11, 0, 0, 0, 0, 0, 0, 0],
              CompareAndSwapCalled 10 11]\<rparr>"

definition m11_asked :: manager where
  "m11_asked = m11\<lparr>now := 5, trace := trace m11 @ [IsDAIncludedCalled 12]\<rparr>"

section \<open>Signed 64-bit arithmetic without wrap-around\<close>

lemma sint_pred: "sint (t::64 word) \<noteq> - (2 ^ 63) \<Longrightarrow> sint (t - 1) = sint t - 1"
proof -
  assume a: "sint t \<noteq> - (2 ^ 63)"
  have lo: "- (2 ^ 63) \<le> sint t" using sint_ge [of t] by simp
  have hi: "sint t < 2 ^ 63" using sint_lt [of t] by simp
  have "sint (t - 1) = signed_take_bit 63 (sint t - 1)"
    by (simp add: sint_word_ariths)
  also have "\<dots> = sint t - 1"
    using a lo hi by (intro signed_take_bit_int_eq_self) auto
  finally show ?thesis .
qed

lemma sint_succ: "sint (i::64 word) < 2 ^ 63 - 1 \<Longrightarrow> sint (i + 1) = sint i + 1"
proof -
  assume a: "sint i < 2 ^ 63 - 1"
  have lo: "- (2 ^ 63) \<le> sint i" using sint_ge [of i] by simp
  have "sint (i + 1) = signed_take_bit 63 (sint i + 1)"
    by (simp add: sint_word_ariths)
  also have "\<dots> = sint i + 1"
    using a lo by (intro signed_take_bit_int_eq_self) auto
  finally show ?thesis .
qed

section \<open>\<open>Retry\<close>\<close>

text \<open>
  Unless \<open>tries\<close> is the least \<open>int\<close>, \<open>tries - 1\<close> does not wrap and the loop makes
  \<open>tries - i\<close> rounds (none when that is negative) before the trailing call.
\<close>

lemma Retry_loop_attempts:
  "sint tries \<noteq> - (2 ^ 63) \<Longrightarrow> k = nat (sint tries - sint i) \<Longrightarrow>
   Retry_loop i tries d fn s = Some (attempts k d fn s)"
proof (induction k arbitrary: i s)
  case 0
  then have "\<not> i \<le>s tries - 1"
    by (simp add: word_sle_eq sint_pred)
  then show ?case
    by (subst Retry_loop.simps) simp
next
  case (Suc k)
  have lt: "sint i < sint tries" using Suc.prems(2) by linarith
  have hi: "sint tries < 2 ^ 63" using sint_lt [of tries] by simp
  have le: "i \<le>s tries - 1"
    using lt Suc.prems(1) by (simp add: word_sle_eq sint_pred)
  have nx: "sint (i + 1) = sint i + 1"
    using lt hi by (intro sint_succ) linarith
  have k: "k = nat (sint tries - sint (i + 1))"
    using Suc.prems(2) nx by linarith
  show ?case
    using le Suc.IH [OF Suc.prems(1) k]
    by (subst Retry_loop.simps) (simp split: prod.splits outcome.splits option.splits)
qed

lemma Retry_attempts:
  "sint tries \<noteq> - (2 ^ 63) \<Longrightarrow> Retry tries d fn s = Some (attempts (nat (sint tries - 1)) d fn s)"
  unfolding Retry_def by (rule Retry_loop_attempts) simp_all

lemma failed_iff: "failed r \<longleftrightarrow> (\<exists>err. r = Return (Some err))"
  by (cases r rule: failed.cases) simp_all

text \<open>
  The run stops at invocation \<open>m\<close>: the \<open>m\<close> invocations before it failed, and it is
  the trailing call or it did not fail.
\<close>

lemma attempts_stop:
  "m \<le> k \<Longrightarrow> (\<forall>j<m. failed (fn (calls s + j))) \<Longrightarrow> m = k \<or> \<not> failed (fn (calls s + m)) \<Longrightarrow>
   attempts k d fn s = (fn (calls s + m), s\<lparr>calls := calls s + m + 1, slept := slept s @ replicate m d\<rparr>)"
proof (induction k arbitrary: m s)
  case 0
  then show ?case by (simp add: call_fn_def)
next
  case (Suc k)
  show ?case
  proof (cases m)
    case 0
    with Suc.prems(3) have "\<not> failed (fn (calls s))" by simp
    then show ?thesis using 0
      by (cases "fn (calls s)" rule: failed.cases) (simp_all add: call_fn_def)
  next
    case (Suc m')
    let ?s' = "time_Sleep d (s\<lparr>calls := Suc (calls s)\<rparr>)"
    from Suc.prems(2) Suc have f0: "failed (fn (calls s))" by (metis add.right_neutral zero_less_Suc)
    have c: "calls ?s' = Suc (calls s)" by (simp add: time_Sleep_def)
    have a1: "m' \<le> k" using Suc.prems(1) Suc by simp
    have a2: "\<forall>j<m'. failed (fn (calls ?s' + j))"
    proof (intro allI impI)
      fix j assume "j < m'"
      then have "Suc j < m" using Suc by simp
      with Suc.prems(2) have "failed (fn (calls s + Suc j))" by blast
      then show "failed (fn (calls ?s' + j))" by (simp add: c)
    qed
    have a3: "m' = k \<or> \<not> failed (fn (calls ?s' + m'))"
      using Suc.prems(3) Suc by (simp add: c)
    have "attempts k d fn ?s' = (fn (calls ?s' + m'), ?s'\<lparr>calls := calls ?s' + m' + 1, slept := slept ?s' @ replicate m' d\<rparr>)"
      by (rule Suc.IH [OF a1 a2 a3])
    then show ?thesis using f0 Suc
      by (auto simp: failed_iff call_fn_def time_Sleep_def replicate_append_same)
  qed
qed

lemma attempts_calls: "calls s < calls (snd (attempts k d fn s)) \<and> calls (snd (attempts k d fn s)) \<le> calls s + k + 1"
proof (induction k arbitrary: s)
  case 0
  show ?case by (simp add: call_fn_def)
next
  case (Suc k)
  show ?case
  proof (cases "fn (calls s)" rule: failed.cases)
    case (1 err)
    then show ?thesis
      using Suc.IH [of "time_Sleep d (s\<lparr>calls := Suc (calls s)\<rparr>)"]
      by (simp add: call_fn_def time_Sleep_def)
  qed (simp_all add: call_fn_def)
qed


text \<open>One sleep between two invocations, none after the last.\<close>

lemma attempts_slept:
  "slept (snd (attempts k d fn s))
     = slept s @ replicate (calls (snd (attempts k d fn s)) - Suc (calls s)) d"
proof (induction k arbitrary: s)
  case 0
  show ?case by (simp add: call_fn_def)
next
  case (Suc k)
  show ?case
  proof (cases "fn (calls s)" rule: failed.cases)
    case (1 err)
    let ?s = "time_Sleep d (s\<lparr>calls := Suc (calls s)\<rparr>)"
    have c: "calls ?s = Suc (calls s)" and sl: "slept ?s = slept s @ [d]"
      by (simp_all add: time_Sleep_def)
    have "Suc (calls s) < calls (snd (attempts k d fn ?s))"
      using attempts_calls [of ?s k d fn] by (simp add: c)
    then have "calls (snd (attempts k d fn ?s)) - Suc (calls s)
        = Suc (calls (snd (attempts k d fn ?s)) - Suc (Suc (calls s)))"
      by simp
    then show ?thesis
      using Suc.IH [of ?s] 1 by (simp add: call_fn_def c sl)
  qed (simp_all add: call_fn_def)
qed

text \<open>
  Claim C7. For \<open>tries \<ge> 1\<close>, \<open>Retry\<close> returns, having invoked \<open>fn\<close> at least once and
  at most \<open>tries\<close> times, with one sleep between two invocations and none after the
  last. If invocation \<open>m\<close> (counted from 0, \<open>m < tries\<close>) is the
  first to return \<open>nil\<close>, \<open>Retry\<close> returns \<open>nil\<close> after exactly \<open>m + 1\<close> invocations.
  If all \<open>tries\<close> invocations fail, it returns what the last of them returned, after
  exactly \<open>tries\<close> invocations.
\<close>

theorem Retry_tries_and_last_error:
  assumes "1 \<le> sint tries"
  shows "\<exists>r s'. Retry tries d fn s = Some (r, s')
      \<and> calls s < calls s' \<and> calls s' \<le> calls s + nat (sint tries)
      \<and> slept s' = slept s @ replicate (calls s' - Suc (calls s)) d
      \<and> (\<forall>m < nat (sint tries). (\<forall>j<m. failed (fn (calls s + j))) \<and> fn (calls s + m) = Return None
            \<longrightarrow> r = Return None \<and> calls s' = calls s + m + 1)
      \<and> ((\<forall>j < nat (sint tries). failed (fn (calls s + j)))
            \<longrightarrow> r = fn (calls s + nat (sint tries) - 1) \<and> calls s' = calls s + nat (sint tries))"
proof -
  define k where "k = nat (sint tries - 1)"
  have n: "nat (sint tries) = Suc k" using assms by (simp add: k_def)
  have R: "Retry tries d fn s = Some (attempts k d fn s)"
    unfolding k_def using assms by (intro Retry_attempts) simp
  have c: "calls s < calls (snd (attempts k d fn s))" "calls (snd (attempts k d fn s)) \<le> calls s + Suc k"
    using attempts_calls [of s k d fn] by simp_all
  note sl = attempts_slept [of k d fn s]
  have first: "fst (attempts k d fn s) = Return None \<and> calls (snd (attempts k d fn s)) = calls s + m + 1"
    if "m < Suc k" "\<forall>j<m. failed (fn (calls s + j))" "fn (calls s + m) = Return None" for m
  proof -
    have "m \<le> k" using that(1) by simp
    moreover have "m = k \<or> \<not> failed (fn (calls s + m))" using that(3) by simp
    ultimately show ?thesis using attempts_stop [of m k fn s d] that(2,3) by simp
  qed
  have all: "fst (attempts k d fn s) = fn (calls s + Suc k - 1) \<and> calls (snd (attempts k d fn s)) = calls s + Suc k"
    if "\<forall>j < Suc k. failed (fn (calls s + j))"
    using attempts_stop [of k k fn s d] that by simp
  show ?thesis
    unfolding n R using c sl first all
    by (intro exI [of _ "fst (attempts k d fn s)"] exI [of _ "snd (attempts k d fn s)"]) simp
qed

text \<open>
  With \<open>tries = 3\<close>: a closure that fails twice and then succeeds gives \<open>nil\<close> after 3
  invocations; one that always fails gives the error of its third invocation.
\<close>

theorem Retry_tries_and_last_error_witness:
  "1 \<le> sint (3 :: int64)
   \<and> (\<exists>s'. Retry 3 10 fails_twice fresh = Some (Return None, s') \<and> calls s' = 3)
   \<and> (\<exists>s'. Retry 3 10 always_fails fresh = Some (Return (Some (ExpectedHeight 5 2)), s') \<and> calls s' = 3)"
proof -
  have t: "1 \<le> sint (3 :: int64)" by simp
  have n: "nat (sint (3 :: int64)) = 3" by simp
  have f2: "\<forall>j<2. failed (fails_twice (calls fresh + j))"
    by (simp add: fails_twice_def fresh_def)
  have f3: "fails_twice (calls fresh + 2) = Return None"
    by (simp add: fails_twice_def fresh_def)
  have a: "\<forall>j<3. failed (always_fails (calls fresh + j))"
    by (simp add: always_fails_def)
  from Retry_tries_and_last_error [OF t, of 10 fails_twice fresh]
  obtain r s' where R: "Retry 3 10 fails_twice fresh = Some (r, s')"
    and F: "\<forall>m<3. (\<forall>j<m. failed (fails_twice (calls fresh + j))) \<and> fails_twice (calls fresh + m) = Return None
            \<longrightarrow> r = Return None \<and> calls s' = calls fresh + m + 1"
    unfolding n by blast
  from F [rule_format, of 2] f2 f3 have "r = Return None \<and> calls s' = 3"
    by (simp add: fresh_def)
  with R have one: "\<exists>s'. Retry 3 10 fails_twice fresh = Some (Return None, s') \<and> calls s' = 3"
    by blast
  from Retry_tries_and_last_error [OF t, of 10 always_fails fresh]
  obtain r s' where R: "Retry 3 10 always_fails fresh = Some (r, s')"
    and A: "(\<forall>j<3. failed (always_fails (calls fresh + j)))
            \<longrightarrow> r = always_fails (calls fresh + 3 - 1) \<and> calls s' = calls fresh + 3"
    unfolding n by blast
  from A a have "r = Return (Some (ExpectedHeight 5 2)) \<and> calls s' = 3"
    by (simp add: fresh_def always_fails_def)
  with R have two: "\<exists>s'. Retry 3 10 always_fails fresh = Some (Return (Some (ExpectedHeight 5 2)), s') \<and> calls s' = 3"
    by blast
  show ?thesis using t one two by blast
qed

text \<open>
  Claim C9 says one invocation for every \<open>tries \<le> 1\<close>. At the least \<open>int\<close>,
  \<open>tries - 1\<close> wraps around to the greatest one, the loop condition holds, and a
  closure that fails once is invoked a second time.
\<close>

theorem Retry_min_int_counterexample:
  "sint (- (2 ^ 63) :: int64) \<le> 1
   \<and> Retry (- (2 ^ 63)) 10 fails_once fresh = Some (Return None, \<lparr>calls = 2, slept = [10]\<rparr>)"
  by (simp add: Retry_def Retry_loop.simps fails_once_def fresh_def call_fn_def time_Sleep_def word_sle_eq)

text \<open>
  Claim C9, amended. For every \<open>tries \<le> 1\<close> other than the least \<open>int\<close> (zero and
  the negative values included), \<open>Retry\<close> invokes \<open>fn\<close> exactly once, does not
  sleep, and returns that invocation's result.
\<close>

theorem Retry_single_invocation:
  assumes "sint tries \<le> 1" and "- (2 ^ 63) < sint tries"
  shows "Retry tries d fn s = Some (fn (calls s), s\<lparr>calls := Suc (calls s)\<rparr>)"
proof -
  have "Retry tries d fn s = Some (attempts (nat (sint tries - 1)) d fn s)"
    using assms(2) by (intro Retry_attempts) simp
  moreover have "nat (sint tries - 1) = 0" using assms(1) by simp
  ultimately show ?thesis by (simp add: call_fn_def)
qed

theorem Retry_single_invocation_witness:
  "sint (0 :: int64) \<le> 1 \<and> - (2 ^ 63) < sint (0 :: int64)
   \<and> Retry 0 10 always_fails fresh = Some (Return (Some (ExpectedHeight 5 0)), \<lparr>calls = 1, slept = []\<rparr>)
   \<and> sint (- 7 :: int64) \<le> 1 \<and> - (2 ^ 63) < sint (- 7 :: int64)
   \<and> Retry (- 7) 10 fails_twice fresh = Some (Return (Some (External ''not yet'')), \<lparr>calls = 1, slept = []\<rparr>)"
proof -
  have a: "sint (0 :: int64) \<le> 1" "- (2 ^ 63) < sint (0 :: int64)" by simp_all
  have b: "sint (- 7 :: int64) \<le> 1" "- (2 ^ 63) < sint (- 7 :: int64)" by simp_all
  show ?thesis
    using a b Retry_single_invocation [OF a, of 10 always_fails fresh]
      Retry_single_invocation [OF b, of 10 fails_twice fresh]
    by (simp add: always_fails_def fails_twice_def fresh_def)
qed

section \<open>The height helpers\<close>

text \<open>
  Claim C10. An attempt of \<open>waitForAtLeastNDAIncludedHeight\<close> on a full node returns
  \<open>nil\<close> exactly when the height it reads is nonzero and at least \<open>n\<close>. When the
  height reads 0 at each of the 300 attempts, the helper makes all 300 and returns the
  error "waiting for DA inclusion", whatever the target \<open>n\<close>, 0 included.
\<close>

theorem waitForAtLeastNDAIncludedHeight_zero_height:
  "(waitForAtLeastNDAIncludedHeight_fn (FullNodePtr f) n k = Return None
      \<longleftrightarrow> fn_GetDAIncludedHeight f k \<noteq> 0 \<and> n \<le> fn_GetDAIncludedHeight f k)
   \<and> ((\<forall>k<300. fn_GetDAIncludedHeight f (calls s + k) = 0) \<longrightarrow>
        waitForAtLeastNDAIncludedHeight (FullNodePtr f) n s =
          Some (Return (Some WaitingForDAInclusion),
                s\<lparr>calls := calls s + 300, slept := slept s @ replicate 299 hundred_ms\<rparr>))"
proof (intro conjI impI)
  show "waitForAtLeastNDAIncludedHeight_fn (FullNodePtr f) n k = Return None
      \<longleftrightarrow> fn_GetDAIncludedHeight f k \<noteq> 0 \<and> n \<le> fn_GetDAIncludedHeight f k"
    by (simp add: waitForAtLeastNDAIncludedHeight_fn_def Let_def)
next
  let ?fn = "waitForAtLeastNDAIncludedHeight_fn (FullNodePtr f) n"
  assume z: "\<forall>k<300. fn_GetDAIncludedHeight f (calls s + k) = 0"
  then have w: "?fn (calls s + j) = Return (Some WaitingForDAInclusion)" if "j < 300" for j
    using that by (simp add: waitForAtLeastNDAIncludedHeight_fn_def)
  have R: "Retry 300 hundred_ms ?fn s = Some (attempts 299 hundred_ms ?fn s)"
    using Retry_attempts [of 300 hundred_ms ?fn s] by simp
  have "attempts 299 hundred_ms ?fn s =
      (?fn (calls s + 299), s\<lparr>calls := calls s + 299 + 1, slept := slept s @ replicate 299 hundred_ms\<rparr>)"
    by (rule attempts_stop) (simp_all add: w)
  then show "waitForAtLeastNDAIncludedHeight (FullNodePtr f) n s =
          Some (Return (Some WaitingForDAInclusion),
                s\<lparr>calls := calls s + 300, slept := slept s @ replicate 299 hundred_ms\<rparr>)"
    unfolding waitForAtLeastNDAIncludedHeight_def R by (simp add: w)
qed

theorem waitForAtLeastNDAIncludedHeight_zero_height_witness:
  "fn_GetDAIncludedHeight stuck_full_node 0 = 0
   \<and> fn_GetDAIncludedHeight stuck_full_node 299 = 0
   \<and> waitForAtLeastNDAIncludedHeight (FullNodePtr stuck_full_node) 0 fresh =
       Some (Return (Some WaitingForDAInclusion), \<lparr>calls = 300, slept = replicate 299 hundred_ms\<rparr>)"
proof -
  have z: "\<forall>k<300. fn_GetDAIncludedHeight stuck_full_node (calls fresh + k) = 0"
    by (simp add: stuck_full_node_def)
  show ?thesis
    using z waitForAtLeastNDAIncludedHeight_zero_height [of stuck_full_node 0 0 fresh]
    by (simp add: fresh_def stuck_full_node_def)
qed

text \<open>
  Claim C8. When the node's variant does not have the requested view, or the source is
  none of \<open>Header\<close>, \<open>Block\<close>, \<open>Store\<close>, \<open>getNodeHeight\<close> returns height 0 together
  with an error: never a success.
\<close>

theorem getNodeHeight_unsupported:
  assumes "\<not> supports node source"
  shows "getNodeHeight node source t =
     (0, Some (if source = Header then NotFullOrLightNode
               else if source = Block \<or> source = Store then NotFullNode
               else InvalidSource))"
  using assms by (cases node) (auto simp: getNodeHeight_def Header_def Block_def Store_def)

theorem getNodeHeight_unsupported_witness:
  "\<not> supports (LightNodePtr a_light_node) Block
   \<and> getNodeHeight (LightNodePtr a_light_node) Block 0 = (0, Some NotFullNode)
   \<and> \<not> supports (FullNodePtr stuck_full_node) 3
   \<and> getNodeHeight (FullNodePtr stuck_full_node) 3 0 = (0, Some InvalidSource)"
proof -
  have a: "\<not> supports (LightNodePtr a_light_node) Block"
    by (simp add: Header_def Block_def)
  have b: "\<not> supports (FullNodePtr stuck_full_node) 3"
    by (simp add: Header_def Block_def Store_def)
  show ?thesis
    using a b getNodeHeight_unsupported [OF a, of 0] getNodeHeight_unsupported [OF b, of 0]
    by (simp add: Header_def Block_def Store_def)
qed

section \<open>\<open>incrementDAIncludedHeight\<close>\<close>

lemmas incr_defs = incrementDAIncludedHeight_def Let_def exec_SetFinal_def store_SetMetadata_def
  away_def logger_def CompareAndSwap_def GetDAIncludedHeight_def

text \<open>
  The buffer that is written to the store: the eight bytes of the height, least
  significant first.
\<close>

lemma PutUint64_bytes:
  "PutUint64 (make_bytes 8) v =
     [ucast v, ucast (drop_bit 8 v), ucast (drop_bit 16 v), ucast (drop_bit 24 v),
      ucast (drop_bit 32 v), ucast (drop_bit 40 v), ucast (drop_bit 48 v), ucast (drop_bit 56 v)]"
  by (simp add: PutUint64_def make_bytes_def numeral_eq_Suc)

text \<open>
  The three ways through the function, each with the state it leaves.
\<close>

lemma incr_SetFinal_fails:
  assumes "SetFinal env (now m) (daIncludedHeight m + 1) = Some err"
  shows "incrementDAIncludedHeight env m =
    (Some err,
     m\<lparr>daIncludedHeight := otherWriters env (now m) (daIncludedHeight m),
       now := Suc (now m),
       trace := trace m @
         [Logged LevelDebug ''setting final'' (daIncludedHeight m + 1) None,
          SetFinalCalled (daIncludedHeight m + 1),
          Logged LevelError ''failed to set final'' (daIncludedHeight m + 1) (Some err)]\<rparr>)"
  using assms by (simp add: incr_defs)

lemma incr_SetMetadata_fails:
  assumes "SetFinal env (now m) (daIncludedHeight m + 1) = None"
    and "SetMetadata env (Suc (now m)) (DAIncludedHeightKey env)
           (PutUint64 (make_bytes 8) (daIncludedHeight m + 1)) = Some err"
  shows "incrementDAIncludedHeight env m =
    (Some err,
     m\<lparr>daIncludedHeight :=
         otherWriters env (Suc (now m)) (otherWriters env (now m) (daIncludedHeight m)),
       now := Suc (Suc (now m)),
       trace := trace m @
         [Logged LevelDebug ''setting final'' (daIncludedHeight m + 1) None,
          SetFinalCalled (daIncludedHeight m + 1),
          Logged LevelDebug ''setting DA included height'' (daIncludedHeight m + 1) None,
          SetMetadataCalled (DAIncludedHeightKey env)
            (PutUint64 (make_bytes 8) (daIncludedHeight m + 1)),
          Logged LevelError ''failed to set DA included height'' (daIncludedHeight m + 1)
            (Some err)]\<rparr>)"
  using assms by (simp add: incr_defs)

lemma incr_CompareAndSwap:
  assumes "SetFinal env (now m) (daIncludedHeight m + 1) = None"
    and "SetMetadata env (Suc (now m)) (DAIncludedHeightKey env)
           (PutUint64 (make_bytes 8) (daIncludedHeight m + 1)) = None"
  shows "incrementDAIncludedHeight env m =
    (if otherWriters env (Suc (now m)) (otherWriters env (now m) (daIncludedHeight m))
          = daIncludedHeight m
     then None else Some (FailedToSetDAIncludedHeight (daIncludedHeight m + 1)),
     m\<lparr>daIncludedHeight :=
         (if otherWriters env (Suc (now m)) (otherWriters env (now m) (daIncludedHeight m))
              = daIncludedHeight m
          then daIncludedHeight m + 1
          else otherWriters env (Suc (now m)) (otherWriters env (now m) (daIncludedHeight m))),
       now := Suc (Suc (now m)),
       trace := trace m @
         [Logged LevelDebug ''setting final'' (daIncludedHeight m + 1) None,
          SetFinalCalled (daIncludedHeight m + 1),
          Logged LevelDebug ''setting DA included height'' (daIncludedHeight m + 1) None,
          SetMetadataCalled (DAIncludedHeightKey env)
            (PutUint64 (make_bytes 8) (daIncludedHeight m + 1)),
          CompareAndSwapCalled (daIncludedHeight m) (daIncludedHeight m + 1)]\<rparr>)"
  using assms by (simp add: incr_defs)

text \<open>
  Claim C2. \<open>incrementDAIncludedHeight\<close> calls \<open>SetFinal\<close> with the next height, then
  \<open>SetMetadata\<close> with the key and the next height encoded as its eight bytes, least
  significant first, then the compare-and-swap from the height read at the start to the
  next height, in this order. When \<open>SetFinal\<close> returns an error nothing follows it
  but the error line; when \<open>SetMetadata\<close> does, the compare-and-swap does not take
  place. The error returned is the one of the step that failed. The whole result is
  given: the error, the trace, the moment, and the cell, which the function itself
  changes only by a compare-and-swap that succeeds, to the next height.
\<close>

theorem incrementDAIncludedHeight_order:
  "incrementDAIncludedHeight env m =
     (case SetFinal env (now m) (daIncludedHeight m + 1) of
        Some err \<Rightarrow>
          (Some err,
           m\<lparr>daIncludedHeight := otherWriters env (now m) (daIncludedHeight m),
             now := Suc (now m),
             trace := trace m @
               [Logged LevelDebug ''setting final'' (daIncludedHeight m + 1) None,
                SetFinalCalled (daIncludedHeight m + 1),
                Logged LevelError ''failed to set final'' (daIncludedHeight m + 1) (Some err)]\<rparr>)
      | None \<Rightarrow>
         (case SetMetadata env (Suc (now m)) (DAIncludedHeightKey env)
                 (PutUint64 (make_bytes 8) (daIncludedHeight m + 1)) of
            Some err \<Rightarrow>
              (Some err,
               m\<lparr>daIncludedHeight :=
                   otherWriters env (Suc (now m)) (otherWriters env (now m) (daIncludedHeight m)),
                 now := Suc (Suc (now m)),
                 trace := trace m @
                   [Logged LevelDebug ''setting final'' (daIncludedHeight m + 1) None,
                    SetFinalCalled (daIncludedHeight m + 1),
                    Logged LevelDebug ''setting DA included height'' (daIncludedHeight m + 1) None,
                    SetMetadataCalled (DAIncludedHeightKey env)
                      (PutUint64 (make_bytes 8) (daIncludedHeight m + 1)),
                    Logged LevelError ''failed to set DA included height''
                      (daIncludedHeight m + 1) (Some err)]\<rparr>)
          | None \<Rightarrow>
              (if otherWriters env (Suc (now m)) (otherWriters env (now m) (daIncludedHeight m))
                    = daIncludedHeight m
               then None
               else Some (FailedToSetDAIncludedHeight (daIncludedHeight m + 1)),
               m\<lparr>daIncludedHeight :=
                   (if otherWriters env (Suc (now m))
                         (otherWriters env (now m) (daIncludedHeight m)) = daIncludedHeight m
                    then daIncludedHeight m + 1
                    else otherWriters env (Suc (now m))
                           (otherWriters env (now m) (daIncludedHeight m))),
                 now := Suc (Suc (now m)),
                 trace := trace m @
                   [Logged LevelDebug ''setting final'' (daIncludedHeight m + 1) None,
                    SetFinalCalled (daIncludedHeight m + 1),
                    Logged LevelDebug ''setting DA included height'' (daIncludedHeight m + 1) None,
                    SetMetadataCalled (DAIncludedHeightKey env)
                      (PutUint64 (make_bytes 8) (daIncludedHeight m + 1)),
                    CompareAndSwapCalled (daIncludedHeight m) (daIncludedHeight m + 1)]\<rparr>)))
   \<and> PutUint64 (make_bytes 8) (daIncludedHeight m + 1) =
       [ucast (daIncludedHeight m + 1),
        ucast (drop_bit 8 (daIncludedHeight m + 1)),
        ucast (drop_bit 16 (daIncludedHeight m + 1)),
        ucast (drop_bit 24 (daIncludedHeight m + 1)),
        ucast (drop_bit 32 (daIncludedHeight m + 1)),
        ucast (drop_bit 40 (daIncludedHeight m + 1)),
        ucast (drop_bit 48 (daIncludedHeight m + 1)),
        ucast (drop_bit 56 (daIncludedHeight m + 1))]"
proof (intro conjI)
  show "PutUint64 (make_bytes 8) (daIncludedHeight m + 1) =
       [ucast (daIncludedHeight m + 1),
        ucast (drop_bit 8 (daIncludedHeight m + 1)),
        ucast (drop_bit 16 (daIncludedHeight m + 1)),
        ucast (drop_bit 24 (daIncludedHeight m + 1)),
        ucast (drop_bit 32 (daIncludedHeight m + 1)),
        ucast (drop_bit 40 (daIncludedHeight m + 1)),
        ucast (drop_bit 48 (daIncludedHeight m + 1)),
        ucast (drop_bit 56 (daIncludedHeight m + 1))]"
    by (rule PutUint64_bytes)
next
  show "incrementDAIncludedHeight env m =
     (case SetFinal env (now m) (daIncludedHeight m + 1) of
        Some err \<Rightarrow>
          (Some err,
           m\<lparr>daIncludedHeight := otherWriters env (now m) (daIncludedHeight m),
             now := Suc (now m),
             trace := trace m @
               [Logged LevelDebug ''setting final'' (daIncludedHeight m + 1) None,
                SetFinalCalled (daIncludedHeight m + 1),
                Logged LevelError ''failed to set final'' (daIncludedHeight m + 1) (Some err)]\<rparr>)
      | None \<Rightarrow>
         (case SetMetadata env (Suc (now m)) (DAIncludedHeightKey env)
                 (PutUint64 (make_bytes 8) (daIncludedHeight m + 1)) of
            Some err \<Rightarrow>
              (Some err,
               m\<lparr>daIncludedHeight :=
                   otherWriters env (Suc (now m)) (otherWriters env (now m) (daIncludedHeight m)),
                 now := Suc (Suc (now m)),
                 trace := trace m @
                   [Logged LevelDebug ''setting final'' (daIncludedHeight m + 1) None,
                    SetFinalCalled (daIncludedHeight m + 1),
                    Logged LevelDebug ''setting DA included height'' (daIncludedHeight m + 1) None,
                    SetMetadataCalled (DAIncludedHeightKey env)
                      (PutUint64 (make_bytes 8) (daIncludedHeight m + 1)),
                    Logged LevelError ''failed to set DA included height''
                      (daIncludedHeight m + 1) (Some err)]\<rparr>)
          | None \<Rightarrow>
              (if otherWriters env (Suc (now m)) (otherWriters env (now m) (daIncludedHeight m))
                    = daIncludedHeight m
               then None
               else Some (FailedToSetDAIncludedHeight (daIncludedHeight m + 1)),
               m\<lparr>daIncludedHeight :=
                   (if otherWriters env (Suc (now m))
                         (otherWriters env (now m) (daIncludedHeight m)) = daIncludedHeight m
                    then daIncludedHeight m + 1
                    else otherWriters env (Suc (now m))
                           (otherWriters env (now m) (daIncludedHeight m))),
                 now := Suc (Suc (now m)),
                 trace := trace m @
                   [Logged LevelDebug ''setting final'' (daIncludedHeight m + 1) None,
                    SetFinalCalled (daIncludedHeight m + 1),
                    Logged LevelDebug ''setting DA included height'' (daIncludedHeight m + 1) None,
                    SetMetadataCalled (DAIncludedHeightKey env)
                      (PutUint64 (make_bytes 8) (daIncludedHeight m + 1)),
                    CompareAndSwapCalled (daIncludedHeight m) (daIncludedHeight m + 1)]\<rparr>)))"
  proof (cases "SetFinal env (now m) (daIncludedHeight m + 1)")
    case (Some err)
    then show ?thesis by (simp add: incr_SetFinal_fails)
  next
    case None
    note f = this
    show ?thesis
    proof (cases "SetMetadata env (Suc (now m)) (DAIncludedHeightKey env)
                   (PutUint64 (make_bytes 8) (daIncludedHeight m + 1))")
      case (Some err)
      with f show ?thesis by (simp add: incr_SetMetadata_fails)
    next
      case None
      with f show ?thesis by (simp add: incr_CompareAndSwap)
    qed
  qed
qed

text \<open>
  From height 10: with everything accepted the three steps take place and the cell
  holds 11; with the store down the run ends at the failed write and the cell holds 10;
  with the executor down it ends at the failed \<open>SetFinal\<close>.
\<close>

theorem incrementDAIncludedHeight_order_witness:
  "incrementDAIncludedHeight env_ok m10 =
     (None,
      \<lparr>daIncludedHeight = 11, now = 2,
       trace = [Logged LevelDebug ''setting final'' 11 None, SetFinalCalled 11,
                Logged LevelDebug ''setting DA included height'' 11 None,
                SetMetadataCalled ''d'' [11, 0, 0, 0, 0, 0, 0, 0],
                CompareAndSwapCalled 10 11]\<rparr>)
   \<and> incrementDAIncludedHeight env_store_down m10 =
     (Some (External ''store down''),
      \<lparr>daIncludedHeight = 10, now = 2,
       trace = [Logged LevelDebug ''setting final'' 11 None, SetFinalCalled 11,
                Logged LevelDebug ''setting DA included height'' 11 None,
                SetMetadataCalled ''d'' [11, 0, 0, 0, 0, 0, 0, 0],
                Logged LevelError ''failed to set DA included height'' 11
                  (Some (External ''store down''))]\<rparr>)
   \<and> incrementDAIncludedHeight env_final_down m10 =
     (Some (External ''executor down''),
      \<lparr>daIncludedHeight = 10, now = 1,
       trace = [Logged LevelDebug ''setting final'' 11 None, SetFinalCalled 11,
                Logged LevelError ''failed to set final'' 11
                  (Some (External ''executor down''))]\<rparr>)"
proof -
  have one: "incrementDAIncludedHeight env_ok m10 =
     (None,
      \<lparr>daIncludedHeight = 11, now = 2,
       trace = [Logged LevelDebug ''setting final'' 11 None, SetFinalCalled 11,
                Logged LevelDebug ''setting DA included height'' 11 None,
                SetMetadataCalled ''d'' [11, 0, 0, 0, 0, 0, 0, 0],
                CompareAndSwapCalled 10 11]\<rparr>)"
    using incrementDAIncludedHeight_order [of env_ok m10, THEN conjunct1]
    by (simp add: env_ok_def m10_def PutUint64_bytes)
  have two: "incrementDAIncludedHeight env_store_down m10 =
     (Some (External ''store down''),
      \<lparr>daIncludedHeight = 10, now = 2,
       trace = [Logged LevelDebug ''setting final'' 11 None, SetFinalCalled 11,
                Logged LevelDebug ''setting DA included height'' 11 None,
                SetMetadataCalled ''d'' [11, 0, 0, 0, 0, 0, 0, 0],
                Logged LevelError ''failed to set DA included height'' 11
                  (Some (External ''store down''))]\<rparr>)"
    using incrementDAIncludedHeight_order [of env_store_down m10, THEN conjunct1]
    by (simp add: env_store_down_def env_ok_def m10_def PutUint64_bytes)
  have three: "incrementDAIncludedHeight env_final_down m10 =
     (Some (External ''executor down''),
      \<lparr>daIncludedHeight = 10, now = 1,
       trace = [Logged LevelDebug ''setting final'' 11 None, SetFinalCalled 11,
                Logged LevelError ''failed to set final'' 11
                  (Some (External ''executor down''))]\<rparr>)"
    using incrementDAIncludedHeight_order [of env_final_down m10, THEN conjunct1]
    by (simp add: env_final_down_def env_ok_def m10_def PutUint64_bytes)
  show ?thesis using one two three by simp
qed


lemma swaps_append: "swaps (xs @ ys) = swaps xs @ swaps ys"
  by (induction xs rule: swaps.induct) simp_all

text \<open>
  Claim C3. When \<open>SetFinal\<close> succeeds and the write to the store fails,
  \<open>incrementDAIncludedHeight\<close> returns the store's error and no compare-and-swap
  has taken place: the function has not written the cell, which holds what the other
  writers left in it and, with the loop as the only writer, still the height it held
  at the start.
\<close>

theorem durable_write_failure_keeps_cell:
  assumes "SetFinal env (now m) (daIncludedHeight m + 1) = None"
    and "SetMetadata env (Suc (now m)) (DAIncludedHeightKey env)
           (PutUint64 (make_bytes 8) (daIncludedHeight m + 1)) = Some err"
  shows "fst (incrementDAIncludedHeight env m) = Some err
       \<and> swaps (trace (snd (incrementDAIncludedHeight env m))) = swaps (trace m)
       \<and> daIncludedHeight (snd (incrementDAIncludedHeight env m))
           = otherWriters env (Suc (now m)) (otherWriters env (now m) (daIncludedHeight m))
       \<and> (single_writer env
            \<longrightarrow> daIncludedHeight (snd (incrementDAIncludedHeight env m)) = daIncludedHeight m)"
  using incr_SetMetadata_fails [OF assms]
  by (simp add: single_writer_def swaps_append)

text \<open>
  At height 10 with the store down the cell stays at 10.
\<close>

theorem durable_write_failure_keeps_cell_witness:
  "SetFinal env_store_down 0 11 = None
   \<and> SetMetadata env_store_down 1 ''d'' (PutUint64 (make_bytes 8) 11) = Some (External ''store down'')
   \<and> single_writer env_store_down
   \<and> fst (incrementDAIncludedHeight env_store_down m10) = Some (External ''store down'')
   \<and> daIncludedHeight (snd (incrementDAIncludedHeight env_store_down m10)) = 10
   \<and> swaps (trace (snd (incrementDAIncludedHeight env_store_down m10))) = []"
proof -
  have sw: "single_writer env_store_down"
    by (simp add: single_writer_def env_store_down_def env_ok_def)
  have f: "SetFinal env_store_down (now m10) (daIncludedHeight m10 + 1) = None"
    by (simp add: env_store_down_def env_ok_def)
  have s: "SetMetadata env_store_down (Suc (now m10)) (DAIncludedHeightKey env_store_down)
           (PutUint64 (make_bytes 8) (daIncludedHeight m10 + 1)) = Some (External ''store down'')"
    by (simp add: env_store_down_def env_ok_def)
  show ?thesis
    using sw durable_write_failure_keeps_cell [OF f s]
    by (simp add: env_store_down_def env_ok_def m10_def)
qed

text \<open>
  With a single writer the function either fails and leaves the cell alone, or
  succeeds and has swapped the cell from its height to the next.
\<close>

lemma incr_single_writer:
  assumes sw: "single_writer env"
  shows "(\<exists>err. fst (incrementDAIncludedHeight env m) = Some err
            \<and> daIncludedHeight (snd (incrementDAIncludedHeight env m)) = daIncludedHeight m
            \<and> swaps (trace (snd (incrementDAIncludedHeight env m))) = swaps (trace m))
       \<or> (fst (incrementDAIncludedHeight env m) = None
            \<and> daIncludedHeight (snd (incrementDAIncludedHeight env m)) = daIncludedHeight m + 1
            \<and> swaps (trace (snd (incrementDAIncludedHeight env m)))
                = swaps (trace m) @ [(daIncludedHeight m, daIncludedHeight m + 1)])"
proof -
  have ow: "otherWriters env t c = c" for t c
    using sw by (simp add: single_writer_def)
  show ?thesis
  proof (cases "SetFinal env (now m) (daIncludedHeight m + 1)")
    case (Some err)
    from incr_SetFinal_fails [OF this] show ?thesis by (simp add: ow swaps_append)
  next
    case None
    note f = this
    show ?thesis
    proof (cases "SetMetadata env (Suc (now m)) (DAIncludedHeightKey env)
                 (PutUint64 (make_bytes 8) (daIncludedHeight m + 1))")
      case (Some err)
      from incr_SetMetadata_fails [OF f this] show ?thesis by (simp add: ow swaps_append)
    next
      case None
      from incr_CompareAndSwap [OF f this] show ?thesis by (simp add: ow swaps_append)
    qed
  qed
qed

section \<open>\<open>DAIncluderLoop\<close>\<close>

text \<open>
  One round of the inner loop, and the two ways it goes on after a confirmed height.
\<close>

lemma drain_unfold:
  "drain env cur m =
     (case IsDAIncluded env (now m) (cur + 1) of
        (b, Some e) \<Rightarrow>
          Some (None, logger LevelDebug ''no more blocks to check at this time'' (cur + 1) (Some e)
                        (away env (IsDAIncludedCalled (cur + 1)) m))
      | (b, None) \<Rightarrow>
          if b then
            (case incrementDAIncludedHeight env (away env (IsDAIncludedCalled (cur + 1)) m) of
               (Some err, m2) \<Rightarrow> Some (Some (ErrorWhileIncrementing err), m2)
             | (None, m2) \<Rightarrow> drain env (cur + 1) m2)
          else Some (None, away env (IsDAIncludedCalled (cur + 1)) m))"
  by (subst drain.simps) (simp add: m_IsDAIncluded_def Let_def split: prod.splits option.splits)

lemma drain_panics:
  assumes "IsDAIncluded env (now m) (cur + 1) = (True, None)"
    and "fst (incrementDAIncludedHeight env (away env (IsDAIncludedCalled (cur + 1)) m)) = Some err"
  shows "drain env cur m =
    Some (Some (ErrorWhileIncrementing err),
          snd (incrementDAIncludedHeight env (away env (IsDAIncludedCalled (cur + 1)) m)))"
proof -
  obtain r m2 where i: "incrementDAIncludedHeight env (away env (IsDAIncludedCalled (cur + 1)) m) = (r, m2)"
    by (cases "incrementDAIncludedHeight env (away env (IsDAIncludedCalled (cur + 1)) m)")
  with assms(2) have r: "r = Some err" by simp
  show ?thesis by (subst drain_unfold) (simp add: assms(1) i r)
qed

lemma drain_continues:
  assumes "IsDAIncluded env (now m) (cur + 1) = (True, None)"
    and "fst (incrementDAIncludedHeight env (away env (IsDAIncludedCalled (cur + 1)) m)) = None"
  shows "drain env cur m =
    drain env (cur + 1) (snd (incrementDAIncludedHeight env (away env (IsDAIncludedCalled (cur + 1)) m)))"
proof -
  obtain r m2 where i: "incrementDAIncludedHeight env (away env (IsDAIncludedCalled (cur + 1)) m) = (r, m2)"
    by (cases "incrementDAIncludedHeight env (away env (IsDAIncludedCalled (cur + 1)) m)")
  with assms(2) have r: "r = None" by simp
  show ?thesis by (subst drain_unfold) (simp add: assms(1) i r)
qed

text \<open>
  A step does not change what the loop goes on to do, so a run that has reached the top
  of the inner \<open>for\<close> ends as the loop ends from there.
\<close>

lemma run_from_step: "run_from env (loop_step env pos) = run_from env pos"
proof (cases pos)
  case (Idle m sigs)
  show ?thesis
  proof (cases sigs)
    case Nil
    with Idle show ?thesis by simp
  next
    case (Cons sg rest)
    with Idle show ?thesis by (cases sg) (simp_all add: Let_def)
  qed
next
  case (Draining cur m sigs)
  obtain b e where o: "IsDAIncluded env (now m) (cur + 1) = (b, e)"
    by (cases "IsDAIncluded env (now m) (cur + 1)")
  obtain r m2 where i: "incrementDAIncludedHeight env (away env (IsDAIncludedCalled (cur + 1)) m) = (r, m2)"
    by (cases "incrementDAIncludedHeight env (away env (IsDAIncludedCalled (cur + 1)) m)")
  note d = drain_unfold [of env cur m]
  show ?thesis
    unfolding Draining
    by (simp add: Let_def m_IsDAIncluded_def o i d split: option.splits)
next
  case (Exited r m)
  then show ?thesis by simp
qed

lemma run_from_steps: "run_from env ((loop_step env ^^ n) pos) = run_from env pos"
  by (induction n) (simp_all add: run_from_step)

lemma DAIncluderLoop_from_position:
  assumes "(loop_step env ^^ n) (Idle m sigs) = Draining cur mi rest"
  shows "DAIncluderLoop env sigs m =
     (case drain env cur mi of
        None \<Rightarrow> None
      | Some (Some p, m') \<Rightarrow> Some (Panicked p, m')
      | Some (None, m') \<Rightarrow> DAIncluderLoop env rest m')"
  using run_from_steps [of env n "Idle m sigs"] assms by simp

lemma DAIncluderLoop_panics_at:
  assumes "(loop_step env ^^ n) (Idle m sigs) = Draining cur mi rest"
    and "IsDAIncluded env (now mi) (cur + 1) = (True, None)"
    and "fst (incrementDAIncludedHeight env (away env (IsDAIncludedCalled (cur + 1)) mi)) = Some err"
  shows "DAIncluderLoop env sigs m =
    Some (Panicked (ErrorWhileIncrementing err),
          snd (incrementDAIncludedHeight env (away env (IsDAIncludedCalled (cur + 1)) mi)))"
  using DAIncluderLoop_from_position [OF assms(1)] drain_panics [OF assms(2,3)] by simp


text \<open>
  Claim C1 says that a failure of \<open>SetFinal\<close> is handled inside the loop, which goes
  back to waiting and tries the height again at the next trigger. With the executor
  down and two triggers pending, the loop panics at the first: \<open>SetFinal\<close> is called
  once, and the second trigger is never received.
\<close>

theorem SetFinal_failure_counterexample:
  "DAIncluderLoop env_final_down [Trigger, Trigger] m10 =
     Some (Panicked (ErrorWhileIncrementing (External ''executor down'')),
       \<lparr>daIncludedHeight = 10, now = 3,
        trace = [Selected Trigger, IsDAIncludedCalled 11,
                 Logged LevelDebug ''setting final'' 11 None,
                 SetFinalCalled 11,
                 Logged LevelError ''failed to set final'' 11 (Some (External ''executor down''))]\<rparr>)"
  by (simp add: drain_unfold incr_defs env_final_down_def env_ok_def m10_def)

text \<open>
  Claim C1, amended. Wherever a run of the loop stands at the top of the inner
  \<open>for\<close> (at any height of any pass): when the inclusion check confirms the next
  height and \<open>SetFinal\<close>, or after it the write to the store, fails with \<open>err\<close>,
  the failure is logged as an error line, no compare-and-swap takes place, and
  \<open>DAIncluderLoop\<close> panics with \<open>err\<close> wrapped, whatever signals are still to come:
  the loop does not go back to waiting and the height is not tried again. With the loop
  as the only writer the cell keeps its height. (The height passed to \<open>SetFinal\<close> is
  the one \<open>incrementDAIncludedHeight\<close> computes from the cell as it finds it after
  the inclusion check.)
\<close>

theorem commit_failure_panics:
  assumes at: "(loop_step env ^^ n) (Idle m sigs) = Draining cur mi rest"
    and incl: "IsDAIncluded env (now mi) (cur + 1) = (True, None)"
    and fails:
      "SetFinal env (Suc (now mi)) (otherWriters env (now mi) (daIncludedHeight mi) + 1) = Some err
       \<or> (SetFinal env (Suc (now mi)) (otherWriters env (now mi) (daIncludedHeight mi) + 1) = None
          \<and> SetMetadata env (Suc (Suc (now mi))) (DAIncludedHeightKey env)
               (PutUint64 (make_bytes 8) (otherWriters env (now mi) (daIncludedHeight mi) + 1))
              = Some err)"
  shows "\<exists>m' msg. DAIncluderLoop env sigs m = Some (Panicked (ErrorWhileIncrementing err), m')
          \<and> swaps (trace m') = swaps (trace mi)
          \<and> last (trace m')
              = Logged LevelError msg (otherWriters env (now mi) (daIncludedHeight mi) + 1) (Some err)
          \<and> (single_writer env \<longrightarrow> daIncludedHeight m' = daIncludedHeight mi)"
proof -
  let ?m1 = "away env (IsDAIncludedCalled (cur + 1)) mi"
  let ?c = "otherWriters env (now mi) (daIncludedHeight mi)"
  have m1: "daIncludedHeight ?m1 = ?c" "now ?m1 = Suc (now mi)"
    "swaps (trace ?m1) = swaps (trace mi)"
    by (simp_all add: away_def swaps_append)
  let ?r = "incrementDAIncludedHeight env ?m1"
  have r: "fst ?r = Some err
      \<and> swaps (trace (snd ?r)) = swaps (trace mi)
      \<and> (\<exists>msg. last (trace (snd ?r)) = Logged LevelError msg (?c + 1) (Some err))
      \<and> (single_writer env \<longrightarrow> daIncludedHeight (snd ?r) = daIncludedHeight mi)"
    using fails
  proof
    assume "SetFinal env (Suc (now mi)) (?c + 1) = Some err"
    then have "SetFinal env (now ?m1) (daIncludedHeight ?m1 + 1) = Some err"
      by (simp add: m1)
    from incr_SetFinal_fails [OF this] show ?thesis
      by (simp add: m1 swaps_append single_writer_def)
  next
    assume a: "SetFinal env (Suc (now mi)) (?c + 1) = None
          \<and> SetMetadata env (Suc (Suc (now mi))) (DAIncludedHeightKey env)
               (PutUint64 (make_bytes 8) (?c + 1)) = Some err"
    then have "SetFinal env (now ?m1) (daIncludedHeight ?m1 + 1) = None"
      and "SetMetadata env (Suc (now ?m1)) (DAIncludedHeightKey env)
               (PutUint64 (make_bytes 8) (daIncludedHeight ?m1 + 1)) = Some err"
      by (simp_all add: m1)
    from incr_SetMetadata_fails [OF this] show ?thesis
      by (simp add: m1 swaps_append single_writer_def)
  qed
  then have "fst ?r = Some err" by simp
  from DAIncluderLoop_panics_at [OF at incl this]
  have "DAIncluderLoop env sigs m = Some (Panicked (ErrorWhileIncrementing err), snd ?r)" .
  with r show ?thesis by blast
qed

text \<open>
  With two triggers pending: the store down for height 12 only, so that height 11 is
  committed first and the loop panics at height 12 with the cell at 11; and the
  executor down, so that the loop panics at height 11 with the cell at 10.
\<close>

theorem commit_failure_panics_witness:
  "(loop_step env_store_down_late ^^ 2) (Idle m10 [Trigger, Trigger]) = Draining 11 m11 [Trigger]
   \<and> IsDAIncluded env_store_down_late 4 12 = (True, None)
   \<and> SetFinal env_store_down_late 5 12 = None
   \<and> SetMetadata env_store_down_late 6 ''d'' (PutUint64 (make_bytes 8) 12)
        = Some (External ''store down'')
   \<and> single_writer env_store_down_late
   \<and> (\<exists>m' msg. DAIncluderLoop env_store_down_late [Trigger, Trigger] m10
            = Some (Panicked (ErrorWhileIncrementing (External ''store down'')), m')
          \<and> swaps (trace m') = [(10, 11)]
          \<and> last (trace m') = Logged LevelError msg 12 (Some (External ''store down''))
          \<and> daIncludedHeight m' = 11)
   \<and> (loop_step env_final_down ^^ 1) (Idle m10 [Trigger, Trigger])
        = Draining 10 m10_woken [Trigger]
   \<and> SetFinal env_final_down 2 11 = Some (External ''executor down'')
   \<and> (\<exists>m' msg. DAIncluderLoop env_final_down [Trigger, Trigger] m10
            = Some (Panicked (ErrorWhileIncrementing (External ''executor down'')), m')
          \<and> swaps (trace m') = []
          \<and> last (trace m') = Logged LevelError msg 11 (Some (External ''executor down''))
          \<and> daIncludedHeight m' = 10)"
proof -
  have at: "(loop_step env_store_down_late ^^ 2) (Idle m10 [Trigger, Trigger]) = Draining 11 m11 [Trigger]"
    by code_simp
  have sw: "single_writer env_store_down_late"
    by (simp add: single_writer_def env_store_down_late_def env_ok_def)
  have incl: "IsDAIncluded env_store_down_late (now m11) (11 + 1) = (True, None)"
    by (simp add: env_store_down_late_def env_ok_def m11_def)
  have fails: "SetFinal env_store_down_late (Suc (now m11))
          (otherWriters env_store_down_late (now m11) (daIncludedHeight m11) + 1)
        = Some (External ''store down'')
       \<or> (SetFinal env_store_down_late (Suc (now m11))
            (otherWriters env_store_down_late (now m11) (daIncludedHeight m11) + 1) = None
          \<and> SetMetadata env_store_down_late (Suc (Suc (now m11)))
               (DAIncludedHeightKey env_store_down_late)
               (PutUint64 (make_bytes 8)
                 (otherWriters env_store_down_late (now m11) (daIncludedHeight m11) + 1))
              = Some (External ''store down''))"
    by (simp add: env_store_down_late_def env_ok_def m11_def)
  have v: "otherWriters env_store_down_late t c = c"
    "swaps (trace m11) = [(10, 11)]" "daIncludedHeight m11 = 11" for t c
    by (simp_all add: env_store_down_late_def env_ok_def m11_def)
  from commit_failure_panics [OF at incl fails] sw
  have late: "\<exists>m' msg. DAIncluderLoop env_store_down_late [Trigger, Trigger] m10
            = Some (Panicked (ErrorWhileIncrementing (External ''store down'')), m')
          \<and> swaps (trace m') = [(10, 11)]
          \<and> last (trace m') = Logged LevelError msg 12 (Some (External ''store down''))
          \<and> daIncludedHeight m' = 11"
    by (auto simp: v)
  have at1: "(loop_step env_final_down ^^ 1) (Idle m10 [Trigger, Trigger]) = Draining 10 m10_woken [Trigger]"
    by code_simp
  have sw1: "single_writer env_final_down"
    by (simp add: single_writer_def env_final_down_def env_ok_def)
  have incl1: "IsDAIncluded env_final_down (now m10_woken) (10 + 1) = (True, None)"
    by (simp add: env_final_down_def env_ok_def m10_woken_def)
  have fails1: "SetFinal env_final_down (Suc (now m10_woken))
          (otherWriters env_final_down (now m10_woken) (daIncludedHeight m10_woken) + 1)
        = Some (External ''executor down'')
       \<or> (SetFinal env_final_down (Suc (now m10_woken))
            (otherWriters env_final_down (now m10_woken) (daIncludedHeight m10_woken) + 1) = None
          \<and> SetMetadata env_final_down (Suc (Suc (now m10_woken)))
               (DAIncludedHeightKey env_final_down)
               (PutUint64 (make_bytes 8)
                 (otherWriters env_final_down (now m10_woken) (daIncludedHeight m10_woken) + 1))
              = Some (External ''executor down''))"
    by (simp add: env_final_down_def env_ok_def m10_woken_def)
  have v1: "otherWriters env_final_down t c = c"
    "swaps (trace m10_woken) = []" "daIncludedHeight m10_woken = 10" for t c
    by (simp_all add: env_final_down_def env_ok_def m10_woken_def)
  from commit_failure_panics [OF at1 incl1 fails1] sw1
  have first: "\<exists>m' msg. DAIncluderLoop env_final_down [Trigger, Trigger] m10
            = Some (Panicked (ErrorWhileIncrementing (External ''executor down'')), m')
          \<and> swaps (trace m') = []
          \<and> last (trace m') = Logged LevelError msg 11 (Some (External ''executor down''))
          \<and> daIncludedHeight m' = 10"
    by (auto simp: v1)
  have e: "IsDAIncluded env_store_down_late 4 12 = (True, None)"
    "SetFinal env_store_down_late 5 12 = None"
    "SetMetadata env_store_down_late 6 ''d'' (PutUint64 (make_bytes 8) 12)
        = Some (External ''store down'')"
    "SetFinal env_final_down 2 11 = Some (External ''executor down'')"
    by (simp_all add: env_store_down_late_def env_final_down_def env_ok_def)
  show ?thesis using at sw late at1 first e by blast
qed

text \<open>
  Claim C6. When \<open>SetFinal\<close> and the write to the store succeed and the cell no longer
  holds the height read at the start, \<open>incrementDAIncludedHeight\<close> returns the error
  "failed to set DA included height" and leaves the cell as the other writer left it.
  Wherever a run of the loop stands at the top of the inner \<open>for\<close> (at any height of
  any pass), when that error comes back after a confirmed height the loop panics with
  it wrapped. With the loop as the only writer the function returns \<open>SetFinal\<close>'s
  error or else the store's answer, so never that error.
\<close>

theorem CompareAndSwap_failure_is_fatal:
  "(SetFinal env (now m) (daIncludedHeight m + 1) = None
      \<and> SetMetadata env (Suc (now m)) (DAIncludedHeightKey env)
            (PutUint64 (make_bytes 8) (daIncludedHeight m + 1)) = None
      \<and> otherWriters env (Suc (now m)) (otherWriters env (now m) (daIncludedHeight m))
            \<noteq> daIncludedHeight m
    \<longrightarrow> fst (incrementDAIncludedHeight env m)
            = Some (FailedToSetDAIncludedHeight (daIncludedHeight m + 1))
        \<and> daIncludedHeight (snd (incrementDAIncludedHeight env m))
            = otherWriters env (Suc (now m)) (otherWriters env (now m) (daIncludedHeight m))
        \<and> last (trace (snd (incrementDAIncludedHeight env m)))
            = CompareAndSwapCalled (daIncludedHeight m) (daIncludedHeight m + 1))
   \<and> ((loop_step env ^^ n) (Idle m0 sigs) = Draining cur mi rest
      \<and> IsDAIncluded env (now mi) (cur + 1) = (True, None)
      \<and> fst (incrementDAIncludedHeight env (away env (IsDAIncludedCalled (cur + 1)) mi))
            = Some (FailedToSetDAIncludedHeight h)
    \<longrightarrow> DAIncluderLoop env sigs m0 =
          Some (Panicked (ErrorWhileIncrementing (FailedToSetDAIncludedHeight h)),
            snd (incrementDAIncludedHeight env (away env (IsDAIncludedCalled (cur + 1)) mi))))
   \<and> (single_writer env
    \<longrightarrow> fst (incrementDAIncludedHeight env m)
          = (case SetFinal env (now m) (daIncludedHeight m + 1) of
               Some err \<Rightarrow> Some err
             | None \<Rightarrow> SetMetadata env (Suc (now m)) (DAIncludedHeightKey env)
                         (PutUint64 (make_bytes 8) (daIncludedHeight m + 1))))"
proof (intro conjI impI)
  assume a: "SetFinal env (now m) (daIncludedHeight m + 1) = None
      \<and> SetMetadata env (Suc (now m)) (DAIncludedHeightKey env)
            (PutUint64 (make_bytes 8) (daIncludedHeight m + 1)) = None
      \<and> otherWriters env (Suc (now m)) (otherWriters env (now m) (daIncludedHeight m))
            \<noteq> daIncludedHeight m"
  then have f: "SetFinal env (now m) (daIncludedHeight m + 1) = None"
    and s: "SetMetadata env (Suc (now m)) (DAIncludedHeightKey env)
            (PutUint64 (make_bytes 8) (daIncludedHeight m + 1)) = None"
    and w: "otherWriters env (Suc (now m)) (otherWriters env (now m) (daIncludedHeight m))
            \<noteq> daIncludedHeight m"
    by simp_all
  note r = incr_CompareAndSwap [OF f s]
  show "fst (incrementDAIncludedHeight env m)
            = Some (FailedToSetDAIncludedHeight (daIncludedHeight m + 1))"
    using w by (simp add: r)
  show "daIncludedHeight (snd (incrementDAIncludedHeight env m))
            = otherWriters env (Suc (now m)) (otherWriters env (now m) (daIncludedHeight m))"
    using w by (simp add: r)
  show "last (trace (snd (incrementDAIncludedHeight env m)))
            = CompareAndSwapCalled (daIncludedHeight m) (daIncludedHeight m + 1)"
    by (simp add: r)
next
  assume A: "(loop_step env ^^ n) (Idle m0 sigs) = Draining cur mi rest
      \<and> IsDAIncluded env (now mi) (cur + 1) = (True, None)
      \<and> fst (incrementDAIncludedHeight env (away env (IsDAIncludedCalled (cur + 1)) mi))
            = Some (FailedToSetDAIncludedHeight h)"
  show "DAIncluderLoop env sigs m0 =
          Some (Panicked (ErrorWhileIncrementing (FailedToSetDAIncludedHeight h)),
            snd (incrementDAIncludedHeight env (away env (IsDAIncludedCalled (cur + 1)) mi)))"
    by (rule DAIncluderLoop_panics_at
          [OF A [THEN conjunct1] A [THEN conjunct2, THEN conjunct1]
              A [THEN conjunct2, THEN conjunct2]])
next
  assume sw: "single_writer env"
  have ow: "otherWriters env t c = c" for t c
    using sw by (simp add: single_writer_def)
  show "fst (incrementDAIncludedHeight env m)
          = (case SetFinal env (now m) (daIncludedHeight m + 1) of
               Some err \<Rightarrow> Some err
             | None \<Rightarrow> SetMetadata env (Suc (now m)) (DAIncludedHeightKey env)
                         (PutUint64 (make_bytes 8) (daIncludedHeight m + 1)))"
  proof (cases "SetFinal env (now m) (daIncludedHeight m + 1)")
    case (Some err)
    then show ?thesis by (simp add: incr_SetFinal_fails)
  next
    case None
    note f = this
    show ?thesis
    proof (cases "SetMetadata env (Suc (now m)) (DAIncludedHeightKey env)
                 (PutUint64 (make_bytes 8) (daIncludedHeight m + 1))")
      case (Some err)
      with f show ?thesis by (simp add: incr_SetMetadata_fails)
    next
      case None
      with f show ?thesis by (simp add: incr_CompareAndSwap ow)
    qed
  qed
qed

text \<open>
  A second writer stores 99 while the loop is in \<open>SetMetadata\<close> for height 12, after
  height 11 has been committed, or for height 11 at once: the compare-and-swap fails
  and the loop panics. Without a second writer the same call succeeds.
\<close>

theorem CompareAndSwap_failure_is_fatal_witness:
  "(loop_step env_late_writer ^^ 2) (Idle m10 [Trigger, Trigger]) = Draining 11 m11 [Trigger]
   \<and> IsDAIncluded env_late_writer 4 12 = (True, None)
   \<and> SetFinal env_late_writer 5 12 = None
   \<and> SetMetadata env_late_writer 6 ''d'' (PutUint64 (make_bytes 8) 12) = None
   \<and> otherWriters env_late_writer 6 (otherWriters env_late_writer 5 11) = 99
   \<and> fst (incrementDAIncludedHeight env_late_writer m11_asked)
        = Some (FailedToSetDAIncludedHeight 12)
   \<and> daIncludedHeight (snd (incrementDAIncludedHeight env_late_writer m11_asked)) = 99
   \<and> DAIncluderLoop env_late_writer [Trigger, Trigger] m10 =
        Some (Panicked (ErrorWhileIncrementing (FailedToSetDAIncludedHeight 12)),
              snd (incrementDAIncludedHeight env_late_writer m11_asked))
   \<and> (loop_step env_second_writer ^^ 1) (Idle m10 [Trigger, Trigger]) = Draining 10 m10_woken [Trigger]
   \<and> fst (incrementDAIncludedHeight env_second_writer m10_asked)
        = Some (FailedToSetDAIncludedHeight 11)
   \<and> DAIncluderLoop env_second_writer [Trigger, Trigger] m10 =
        Some (Panicked (ErrorWhileIncrementing (FailedToSetDAIncludedHeight 11)),
              snd (incrementDAIncludedHeight env_second_writer m10_asked))
   \<and> single_writer env_ok
   \<and> fst (incrementDAIncludedHeight env_ok m10) = None"
proof -
  have e: "IsDAIncluded env_late_writer 4 12 = (True, None)"
    "SetFinal env_late_writer 5 12 = None"
    "SetMetadata env_late_writer 6 ''d'' (PutUint64 (make_bytes 8) 12) = None"
    "otherWriters env_late_writer 6 (otherWriters env_late_writer 5 11) = 99"
    by (simp_all add: env_late_writer_def env_ok_def)
  have at: "(loop_step env_late_writer ^^ 2) (Idle m10 [Trigger, Trigger]) = Draining 11 m11 [Trigger]"
    by code_simp
  have m1: "away env_late_writer (IsDAIncludedCalled (11 + 1)) m11 = m11_asked"
    by (simp add: away_def env_late_writer_def env_ok_def m11_def m11_asked_def)
  have a: "SetFinal env_late_writer (now m11_asked) (daIncludedHeight m11_asked + 1) = None
      \<and> SetMetadata env_late_writer (Suc (now m11_asked)) (DAIncludedHeightKey env_late_writer)
            (PutUint64 (make_bytes 8) (daIncludedHeight m11_asked + 1)) = None
      \<and> otherWriters env_late_writer (Suc (now m11_asked))
            (otherWriters env_late_writer (now m11_asked) (daIncludedHeight m11_asked))
            \<noteq> daIncludedHeight m11_asked"
    by (simp add: env_late_writer_def env_ok_def m11_def m11_asked_def)
  note T1 = CompareAndSwap_failure_is_fatal [where env = env_late_writer and m = m11_asked, THEN conjunct1, rule_format, OF a]
  have f: "fst (incrementDAIncludedHeight env_late_writer m11_asked) = Some (FailedToSetDAIncludedHeight 12)"
    and c: "daIncludedHeight (snd (incrementDAIncludedHeight env_late_writer m11_asked)) = 99"
    using T1 by (simp_all add: env_late_writer_def env_ok_def m11_def m11_asked_def)
  have i: "IsDAIncluded env_late_writer (now m11) (11 + 1) = (True, None)"
    by (simp add: env_late_writer_def env_ok_def m11_def)
  have l: "DAIncluderLoop env_late_writer [Trigger, Trigger] m10 =
        Some (Panicked (ErrorWhileIncrementing (FailedToSetDAIncludedHeight 12)),
              snd (incrementDAIncludedHeight env_late_writer m11_asked))"
  proof -
    have f': "fst (incrementDAIncludedHeight env_late_writer
                (away env_late_writer (IsDAIncludedCalled (11 + 1)) m11))
              = Some (FailedToSetDAIncludedHeight 12)"
      unfolding m1 by (rule f)
    from CompareAndSwap_failure_is_fatal
            [where env = env_late_writer and n = 2 and ?m0.0 = m10 and sigs = "[Trigger, Trigger]"
               and cur = 11 and mi = m11 and rest = "[Trigger]" and h = 12,
             THEN conjunct2, THEN conjunct1, rule_format, OF conjI [OF at conjI [OF i f']]]
    show ?thesis unfolding m1 .
  qed
  have at1: "(loop_step env_second_writer ^^ 1) (Idle m10 [Trigger, Trigger]) = Draining 10 m10_woken [Trigger]"
    by code_simp
  have m2: "away env_second_writer (IsDAIncludedCalled (10 + 1)) m10_woken = m10_asked"
    by (simp add: away_def env_second_writer_def env_ok_def m10_woken_def m10_asked_def)
  have a1: "SetFinal env_second_writer (now m10_asked) (daIncludedHeight m10_asked + 1) = None
      \<and> SetMetadata env_second_writer (Suc (now m10_asked)) (DAIncludedHeightKey env_second_writer)
            (PutUint64 (make_bytes 8) (daIncludedHeight m10_asked + 1)) = None
      \<and> otherWriters env_second_writer (Suc (now m10_asked))
            (otherWriters env_second_writer (now m10_asked) (daIncludedHeight m10_asked))
            \<noteq> daIncludedHeight m10_asked"
    by (simp add: env_second_writer_def env_ok_def m10_asked_def)
  note T2 = CompareAndSwap_failure_is_fatal [where env = env_second_writer and m = m10_asked, THEN conjunct1, rule_format, OF a1]
  have f1: "fst (incrementDAIncludedHeight env_second_writer m10_asked) = Some (FailedToSetDAIncludedHeight 11)"
    using T2 by (simp add: m10_asked_def)
  have i1: "IsDAIncluded env_second_writer (now m10_woken) (10 + 1) = (True, None)"
    by (simp add: env_second_writer_def env_ok_def m10_woken_def)
  have l1: "DAIncluderLoop env_second_writer [Trigger, Trigger] m10 =
        Some (Panicked (ErrorWhileIncrementing (FailedToSetDAIncludedHeight 11)),
              snd (incrementDAIncludedHeight env_second_writer m10_asked))"
  proof -
    have f': "fst (incrementDAIncludedHeight env_second_writer
                (away env_second_writer (IsDAIncludedCalled (10 + 1)) m10_woken))
              = Some (FailedToSetDAIncludedHeight 11)"
      unfolding m2 by (rule f1)
    from CompareAndSwap_failure_is_fatal
            [where env = env_second_writer and n = 1 and ?m0.0 = m10 and sigs = "[Trigger, Trigger]"
               and cur = 10 and mi = m10_woken and rest = "[Trigger]" and h = 11,
             THEN conjunct2, THEN conjunct1, rule_format, OF conjI [OF at1 conjI [OF i1 f']]]
    show ?thesis unfolding m2 .
  qed
  have sw: "single_writer env_ok"
    by (simp add: single_writer_def env_ok_def)
  have n: "fst (incrementDAIncludedHeight env_ok m10) = None"
    using CompareAndSwap_failure_is_fatal [where env = env_ok and m = m10, THEN conjunct2, THEN conjunct2] sw
    by (simp add: env_ok_def)
  show ?thesis using e at f c l at1 f1 l1 sw n by blast
qed

section \<open>Heights without wrap-around\<close>

lemma succ_no_wrap:
  "(cur :: uint64) + 1 \<noteq> 0 \<Longrightarrow> unat (cur + 1) = Suc (unat cur) \<and> Suc (unat cur) < 2 ^ 64"
proof -
  assume a: "cur + 1 \<noteq> 0"
  then have "1 + cur \<noteq> 0" by (simp add: add.commute)
  then have "unat (1 + cur) = Suc (unat cur)" by (rule unatSuc)
  then have s: "unat (cur + 1) = Suc (unat cur)" by (simp add: add.commute)
  have "unat (cur + 1) < 2 ^ 64" using unsigned_less [of "cur + 1"] by simp
  with s show ?thesis by simp
qed

lemma unat_climb: "unat (H :: uint64) + j < 2 ^ 64 \<Longrightarrow> unat (H + of_nat j) = unat H + j"
proof -
  assume a: "unat H + j < 2 ^ 64"
  then have "unat (of_nat j :: uint64) = j" by (simp add: unat_of_nat)
  with a show ?thesis using unat_add_lem [of H "of_nat j"] by simp
qed

lemma le_climb: "unat (H :: uint64) + j < 2 ^ 64 \<Longrightarrow> H \<le> H + of_nat j"
proof -
  assume a: "unat H + j < 2 ^ 64"
  then have "unat (of_nat j :: uint64) = j" by (simp add: unat_of_nat)
  with a show ?thesis by (simp add: no_plus_overflow_unat_size word_size)
qed

lemma climb_Cons:
  "(H, H + 1) # map (\<lambda>i. (H + 1 + of_nat i, H + 1 + of_nat i + 1)) [0..<j]
     = map (\<lambda>i. (H + of_nat i, H + of_nat i + 1 :: uint64)) [0..<Suc j]"
proof -
  have "[0..<Suc j] = 0 # map Suc [0..<j]"
    by (simp add: upt_conv_Cons map_Suc_upt del: upt_Suc)
  then show ?thesis by (simp add: o_def add.assoc del: upt_Suc)
qed

lemma climb_append:
  "map (\<lambda>i. (H + of_nat i, H + of_nat i + 1 :: uint64)) [0..<j1]
     @ map (\<lambda>i. (H + of_nat j1 + of_nat i, H + of_nat j1 + of_nat i + 1)) [0..<j2]
   = map (\<lambda>i. (H + of_nat i, H + of_nat i + 1)) [0..<j1 + j2]"
proof -
  have "[0..<j1 + j2] = [0..<j1] @ [j1..<j1 + j2]"
    by (rule upt_add_eq_append) simp
  also have "[j1..<j1 + j2] = map (\<lambda>i. i + j1) [0..<j2]"
    by (simp add: map_add_upt add.commute)
  finally show ?thesis by (simp add: o_def ac_simps)
qed

section \<open>Monotonicity\<close>

text \<open>
  A drain pass that starts with the cell at \<open>cur\<close> ends, having swapped the cell
  through \<open>cur + 1\<close>, ..., \<open>cur + j\<close> for some \<open>j\<close> that does not wrap.
\<close>

lemma drain_climbs:
  assumes sw: "single_writer env"
    and z: "\<forall>t. IsDAIncluded env t 0 \<noteq> (True, None)"
  shows "d = 2 ^ 64 - 1 - unat cur \<Longrightarrow> daIncludedHeight m = cur \<Longrightarrow>
    \<exists>res m' j. drain env cur m = Some (res, m')
      \<and> unat cur + j < 2 ^ 64
      \<and> daIncludedHeight m' = cur + of_nat j
      \<and> swaps (trace m') = swaps (trace m) @ map (\<lambda>i. (cur + of_nat i, cur + of_nat i + 1)) [0..<j]"
proof (induction d arbitrary: cur m rule: less_induct)
  case (less d)
  have ow: "otherWriters env t c = c" for t c
    using sw by (simp add: single_writer_def)
  have bound: "unat cur < 2 ^ 64" using unsigned_less [of cur] by simp
  let ?m1 = "away env (IsDAIncludedCalled (cur + 1)) m"
  have m1: "daIncludedHeight ?m1 = cur" "swaps (trace ?m1) = swaps (trace m)"
    using less.prems(2) by (simp_all add: away_def ow swaps_append)
  obtain b e where o: "IsDAIncluded env (now m) (cur + 1) = (b, e)"
    by (cases "IsDAIncluded env (now m) (cur + 1)")
  have stay: "\<exists>res m' j. drain env cur m = Some (res, m')
      \<and> unat cur + j < 2 ^ 64
      \<and> daIncludedHeight m' = cur + of_nat j
      \<and> swaps (trace m') = swaps (trace m) @ map (\<lambda>i. (cur + of_nat i, cur + of_nat i + 1)) [0..<j]"
    if "drain env cur m = Some (res, m')" "daIncludedHeight m' = cur"
      "swaps (trace m') = swaps (trace m)" for res m'
    using that bound by (intro exI [of _ res] exI [of _ m'] exI [of _ 0]) simp
  show ?case
  proof (cases e)
    case (Some x)
    let ?m' = "logger LevelDebug ''no more blocks to check at this time'' (cur + 1) (Some x) ?m1"
    have "drain env cur m = Some (None, ?m')"
      by (subst drain_unfold) (simp add: o Some)
    moreover have "daIncludedHeight ?m' = cur" "swaps (trace ?m') = swaps (trace m)"
      using m1 by (simp_all add: logger_def swaps_append)
    ultimately show ?thesis by (rule stay)
  next
    case None
    show ?thesis
    proof (cases b)
      case False
      have "drain env cur m = Some (None, ?m1)"
        by (subst drain_unfold) (simp add: o None False)
      then show ?thesis using m1 by (rule stay)
    next
      case True
      with o None z have nz: "cur + 1 \<noteq> 0" by metis
      note nw = succ_no_wrap [OF nz]
      let ?r = "incrementDAIncludedHeight env ?m1"
      from incr_single_writer [OF sw, of ?m1]
      show ?thesis
      proof
        assume "\<exists>err. fst ?r = Some err \<and> daIncludedHeight (snd ?r) = daIncludedHeight ?m1
            \<and> swaps (trace (snd ?r)) = swaps (trace ?m1)"
        then obtain err where e: "fst ?r = Some err" "daIncludedHeight (snd ?r) = cur"
            "swaps (trace (snd ?r)) = swaps (trace m)"
          using m1 by auto
        have "drain env cur m = Some (Some (ErrorWhileIncrementing err), snd ?r)"
          using o None True e(1) by (intro drain_panics) simp_all
        then show ?thesis using e(2,3) by (rule stay)
      next
        assume "fst ?r = None \<and> daIncludedHeight (snd ?r) = daIncludedHeight ?m1 + 1
            \<and> swaps (trace (snd ?r)) = swaps (trace ?m1) @ [(daIncludedHeight ?m1, daIncludedHeight ?m1 + 1)]"
        then have s: "fst ?r = None" "daIncludedHeight (snd ?r) = cur + 1"
            "swaps (trace (snd ?r)) = swaps (trace m) @ [(cur, cur + 1)]"
          using m1 by auto
        have step: "drain env cur m = drain env (cur + 1) (snd ?r)"
          using o None True s(1) by (intro drain_continues) simp_all
        have "2 ^ 64 - 1 - unat (cur + 1) < d"
          using less.prems(1) nw by simp linarith
        from less.IH [OF this refl s(2)]
        obtain res m' j where d: "drain env (cur + 1) (snd ?r) = Some (res, m')"
          and j: "unat (cur + 1) + j < 2 ^ 64"
          and c: "daIncludedHeight m' = cur + 1 + of_nat j"
          and t: "swaps (trace m') = swaps (trace (snd ?r))
                @ map (\<lambda>i. (cur + 1 + of_nat i, cur + 1 + of_nat i + 1)) [0..<j]"
          by blast
        have t': "swaps (trace m') = swaps (trace m)
                @ map (\<lambda>i. (cur + of_nat i, cur + of_nat i + 1)) [0..<Suc j]"
          unfolding t s(3) climb_Cons [symmetric] by simp
        show ?thesis
          using d j c t' nw unfolding step
          by (intro exI [of _ res] exI [of _ m'] exI [of _ "Suc j"]) (simp add: add.assoc)
      qed
    qed
  qed
qed

text \<open>
  Claim C4 says that no step replaces the cell's value with a smaller one. With the
  cell at the greatest \<open>uint64\<close> the next height wraps to 0; when the inclusion check
  confirms height 0 the loop swaps the cell from \<open>2^64 - 1\<close> to 0.
\<close>

theorem height_wraps_counterexample:
  "daIncludedHeight m_top = 18446744073709551615
   \<and> DAIncluderLoop env_wrap [Trigger] m_top =
     Some (Waiting,
       \<lparr>daIncludedHeight = 0, now = 5,
        trace = [Selected Trigger, IsDAIncludedCalled 0,
                 Logged LevelDebug ''setting final'' 0 None, SetFinalCalled 0,
                 Logged LevelDebug ''setting DA included height'' 0 None,
                 SetMetadataCalled ''d'' [0, 0, 0, 0, 0, 0, 0, 0],
                 CompareAndSwapCalled 18446744073709551615 0,
                 IsDAIncludedCalled 1]\<rparr>)"
  by (simp add: drain_unfold incr_defs PutUint64_bytes env_wrap_def env_ok_def m_top_def)

text \<open>
  Claim C4, amended. With the loop as the only writer and an inclusion check that
  never confirms height 0: for every sequence of signals and every behaviour of the
  collaborators over time, \<open>DAIncluderLoop\<close> ends (returns, panics or is left waiting)
  with the cell at its first height plus some \<open>j\<close> without wrap-around, so not
  below where it was, and the cell has only been swapped from a height to the next:
  through \<open>H + 1\<close>, ..., \<open>H + j\<close> in this order.
\<close>

theorem height_never_decreases:
  assumes sw: "single_writer env"
    and z: "\<forall>t. IsDAIncluded env t 0 \<noteq> (True, None)"
  shows "\<exists>r m' j. DAIncluderLoop env sigs m = Some (r, m')
      \<and> unat (daIncludedHeight m) + j < 2 ^ 64
      \<and> daIncludedHeight m' = daIncludedHeight m + of_nat j
      \<and> GetDAIncludedHeight m \<le> GetDAIncludedHeight m'
      \<and> swaps (trace m') = swaps (trace m)
           @ map (\<lambda>i. (daIncludedHeight m + of_nat i, daIncludedHeight m + of_nat i + 1)) [0..<j]"
  unfolding GetDAIncludedHeight_def
proof (induction sigs arbitrary: m)
  case Nil
  have "unat (daIncludedHeight m) < 2 ^ 64" using unsigned_less [of "daIncludedHeight m"] by simp
  then show ?case by (intro exI [of _ Waiting] exI [of _ m] exI [of _ 0]) simp
next
  case (Cons sg sigs)
  have ow: "otherWriters env t c = c" for t c
    using sw by (simp add: single_writer_def)
  have bound: "unat (daIncludedHeight m) < 2 ^ 64"
    using unsigned_less [of "daIncludedHeight m"] by simp
  show ?case
  proof (cases sg)
    case Done
    then show ?thesis using bound
      by (intro exI [of _ Returned] exI [of _ "away env (Selected Done) m"] exI [of _ 0])
         (simp add: away_def ow swaps_append)
  next
    case Trigger
    let ?H = "daIncludedHeight m"
    let ?m0 = "away env (Selected Trigger) m"
    have m0: "daIncludedHeight ?m0 = ?H" "swaps (trace ?m0) = swaps (trace m)"
      by (simp_all add: away_def ow swaps_append)
    from drain_climbs [OF sw z refl m0(1)]
    obtain res m1 j1 where d: "drain env ?H ?m0 = Some (res, m1)"
      and j1: "unat ?H + j1 < 2 ^ 64"
      and c1: "daIncludedHeight m1 = ?H + of_nat j1"
      and t1: "swaps (trace m1) = swaps (trace m)
                 @ map (\<lambda>i. (?H + of_nat i, ?H + of_nat i + 1)) [0..<j1]"
      unfolding m0(2) by blast
    show ?thesis
    proof (cases res)
      case (Some p)
      have "DAIncluderLoop env (sg # sigs) m = Some (Panicked p, m1)"
        using Trigger d Some by (simp add: Let_def GetDAIncludedHeight_def m0(1))
      then show ?thesis using j1 c1 t1 le_climb [OF j1]
        by (intro exI [of _ "Panicked p"] exI [of _ m1] exI [of _ j1]) simp
    next
      case None
      have step: "DAIncluderLoop env (sg # sigs) m = DAIncluderLoop env sigs m1"
        using Trigger d None by (simp add: Let_def GetDAIncludedHeight_def m0(1))
      from Cons.IH [of m1]
      obtain r m' j2 where l: "DAIncluderLoop env sigs m1 = Some (r, m')"
        and j2: "unat (daIncludedHeight m1) + j2 < 2 ^ 64"
        and c2: "daIncludedHeight m' = daIncludedHeight m1 + of_nat j2"
        and t2: "swaps (trace m') = swaps (trace m1)
             @ map (\<lambda>i. (daIncludedHeight m1 + of_nat i, daIncludedHeight m1 + of_nat i + 1)) [0..<j2]"
        by blast
      have j: "unat ?H + (j1 + j2) < 2 ^ 64"
        using j2 unat_climb [OF j1] by (simp add: c1)
      have c: "daIncludedHeight m' = ?H + of_nat (j1 + j2)"
        by (simp add: c2 c1 add.assoc)
      have t: "swaps (trace m') = swaps (trace m)
           @ map (\<lambda>i. (?H + of_nat i, ?H + of_nat i + 1)) [0..<j1 + j2]"
        unfolding t2 t1 c1 climb_append [symmetric] by simp
      show ?thesis
        unfolding step using l j c t le_climb [OF j]
        by (intro exI [of _ r] exI [of _ m'] exI [of _ "j1 + j2"]) simp
    qed
  qed
qed

text \<open>
  From height 10, a trigger and then cancellation.
\<close>

theorem height_never_decreases_witness:
  "single_writer env_ok
   \<and> IsDAIncluded env_ok 0 0 \<noteq> (True, None)
   \<and> (\<exists>r m'. DAIncluderLoop env_ok [Trigger, Done] m10 = Some (r, m')
         \<and> GetDAIncludedHeight m10 \<le> GetDAIncludedHeight m')"
proof -
  have sw: "single_writer env_ok"
    by (simp add: single_writer_def env_ok_def)
  have z: "\<forall>t. IsDAIncluded env_ok t 0 \<noteq> (True, None)"
    by (simp add: env_ok_def)
  from height_never_decreases [OF sw z, of "[Trigger, Done]" m10]
  have "\<exists>r m'. DAIncluderLoop env_ok [Trigger, Done] m10 = Some (r, m')
         \<and> GetDAIncludedHeight m10 \<le> GetDAIncludedHeight m'"
    by blast
  with sw z show ?thesis by blast
qed

section \<open>Contiguity\<close>





end
